theory Spec2Isabelle
  imports Main "HOL-Library.Word"
begin

section \<open>Strings of the runtime\<close>

text \<open>
  A JavaScript string is a sequence of 16-bit code units. Literals of the source that are
  ASCII are written \<open>js ''...''\<close>; the Hindi and Telugu texts are given by their code units.
\<close>

type_synonym cu = "16 word"
type_synonym jsstring = "cu list"

definition js :: "string \<Rightarrow> jsstring" where
  "js s = map of_char s"

text \<open>The character classes of the regular expressions: \<open>\d\<close>, \<open>\w\<close>, \<open>\s\<close>.\<close>

definition digit :: "cu \<Rightarrow> bool" where
  "digit c = (0x30 \<le> c \<and> c \<le> 0x39)"

definition upperAZ :: "cu \<Rightarrow> bool" where
  "upperAZ c = (0x41 \<le> c \<and> c \<le> 0x5A)"

definition lowerAZ :: "cu \<Rightarrow> bool" where
  "lowerAZ c = (0x61 \<le> c \<and> c \<le> 0x7A)"

definition wordChar :: "cu \<Rightarrow> bool" where
  "wordChar c = (upperAZ c \<or> lowerAZ c \<or> digit c \<or> c = 0x5F)"

text \<open>
  \<open>\s\<close> and \<open>String.prototype.trim\<close> use the same set: WhiteSpace and LineTerminator of
  ECMAScript (TAB, LF, VT, FF, CR, SP, NBSP, U+1680, U+2000..U+200A, U+2028, U+2029, U+202F,
  U+205F, U+3000, U+FEFF).
\<close>

definition space :: "cu \<Rightarrow> bool" where
  "space c = ((0x09 \<le> c \<and> c \<le> 0x0D) \<or> c = 0x20 \<or> c = 0xA0 \<or> c = 0x1680
      \<or> (0x2000 \<le> c \<and> c \<le> 0x200A) \<or> c = 0x2028 \<or> c = 0x2029 \<or> c = 0x202F
      \<or> c = 0x205F \<or> c = 0x3000 \<or> c = 0xFEFF)"

definition trim :: "jsstring \<Rightarrow> jsstring" where
  "trim s = rev (dropWhile space (rev (dropWhile space s)))"

text \<open>\<open>a || b\<close> on strings: the empty string is the only falsy string.\<close>

definition or_else :: "jsstring \<Rightarrow> jsstring \<Rightarrow> jsstring" where
  "or_else a b = (if a = [] then b else a)"

text \<open>\<open>String(n)\<close> for a non-negative integer \<open>n\<close>: its decimal digits.\<close>

fun decimal :: "nat \<Rightarrow> jsstring" where
  "decimal n = (if n < 10 then [of_nat (48 + n)]
                else decimal (n div 10) @ [of_nat (48 + n mod 10)])"

declare decimal.simps [simp del]

text \<open>
  \<open>parseInt(s, 10)\<close>: leading white space is skipped, a sign is read, then the longest run
  of digits; \<open>None\<close> is NaN (no digit). The source compares the result with 1 and 12 only
  and prints it only when it lies between them, so the rounding of integers beyond
  \<open>2^53\<close> to a double (which keeps them above 12) is not visible and the value is kept
  exact here.
\<close>

definition digitsValue :: "jsstring \<Rightarrow> nat" where
  "digitsValue ds = foldl (\<lambda>n c. 10 * n + unat (c - 0x30)) 0 ds"

definition parseInt :: "jsstring \<Rightarrow> int option" where
  "parseInt s =
     (let t = dropWhile space s;
          neg = (t \<noteq> [] \<and> hd t = 0x2D);
          r = (if t \<noteq> [] \<and> (hd t = 0x2D \<or> hd t = 0x2B) then tl t else t);
          ds = takeWhile digit r
      in if ds = [] then None
         else Some (if neg then - int (digitsValue ds) else int (digitsValue ds)))"

section \<open>Regular expressions\<close>

text \<open>
  The fragment of ECMAScript regular expressions that the source uses, as a backtracking
  matcher. A position is the code unit before the cursor (\<open>None\<close> at the start of the
  input) and the input that remains. \<open>matches\<close> lists the positions after every way of
  matching, in the order in which backtracking tries them.
\<close>

type_synonym pos = "cu option \<times> jsstring"

datatype rx =
    Lit jsstring
  | Cls "cu \<Rightarrow> bool"
  | Seq rx rx
  | Alt rx rx
  | Opt rx
  | Star "cu \<Rightarrow> bool"
  | Bol
  | Eol
  | WordB

text \<open>
  Canonicalize of the \<open>i\<close> flag (without the \<open>u\<close> flag): a code unit is compared by its
  upper case, except that a code unit from 128 on never canonicalizes to an ASCII one.
  Every pattern character of this program is ASCII, so a code unit from 128 on matches
  none of them, whatever its upper case is; it is left as it is.
\<close>

definition canonicalize :: "cu \<Rightarrow> cu" where
  "canonicalize c = (if lowerAZ c then c - 0x20 else c)"

definition sameChar :: "bool \<Rightarrow> cu \<Rightarrow> cu \<Rightarrow> bool" where
  "sameChar ic x c = (if ic then canonicalize x = canonicalize c else x = c)"

fun lit :: "bool \<Rightarrow> jsstring \<Rightarrow> pos \<Rightarrow> pos list" where
  "lit ic [] z = [z]"
| "lit ic (x # xs) (p, []) = []"
| "lit ic (x # xs) (p, c # cs) = (if sameChar ic x c then lit ic xs (Some c, cs) else [])"

fun star :: "(cu \<Rightarrow> bool) \<Rightarrow> pos \<Rightarrow> pos list" where
  "star P (p, []) = [(p, [])]"
| "star P (p, c # cs) = (if P c then star P (Some c, cs) @ [(p, c # cs)] else [(p, c # cs)])"

definition isWordAt :: "cu option \<Rightarrow> bool" where
  "isWordAt p = (case p of None \<Rightarrow> False | Some c \<Rightarrow> wordChar c)"

definition nextChar :: "jsstring \<Rightarrow> cu option" where
  "nextChar a = (case a of [] \<Rightarrow> None | c # cs \<Rightarrow> Some c)"

fun matches :: "bool \<Rightarrow> rx \<Rightarrow> pos \<Rightarrow> pos list" where
  "matches ic (Lit w) z = lit ic w z"
| "matches ic (Cls P) (p, a) = (case a of [] \<Rightarrow> [] | c # cs \<Rightarrow> if P c then [(Some c, cs)] else [])"
| "matches ic (Seq r1 r2) z = concat (map (matches ic r2) (matches ic r1 z))"
| "matches ic (Alt r1 r2) z = matches ic r1 z @ matches ic r2 z"
| "matches ic (Opt r) z = matches ic r z @ [z]"
| "matches ic (Star P) z = star P z"
| "matches ic Bol (p, a) = (if p = None then [(p, a)] else [])"
| "matches ic Eol (p, a) = (if a = [] then [(p, a)] else [])"
| "matches ic WordB (p, a) = (if isWordAt p \<noteq> isWordAt (nextChar a) then [(p, a)] else [])"

text \<open>\<open>r.test(s)\<close> for a regular expression without the \<open>g\<close> flag: a match at some position.\<close>

fun testFrom :: "bool \<Rightarrow> rx \<Rightarrow> pos \<Rightarrow> bool" where
  "testFrom ic r (p, []) = (matches ic r (p, []) \<noteq> [])"
| "testFrom ic r (p, c # cs) = (matches ic r (p, c # cs) \<noteq> [] \<or> testFrom ic r (Some c, cs))"

definition test :: "bool \<Rightarrow> rx \<Rightarrow> jsstring \<Rightarrow> bool" where
  "test ic r s = testFrom ic r (None, s)"

text \<open>\<open>s.match(r)?.[0]\<close>: the text of the leftmost match, \<open>None\<close> when there is none.\<close>

fun execFrom :: "bool \<Rightarrow> rx \<Rightarrow> pos \<Rightarrow> jsstring option" where
  "execFrom ic r (p, []) = (case matches ic r (p, []) of [] \<Rightarrow> None | z # zs \<Rightarrow> Some [])"
| "execFrom ic r (p, c # cs) =
     (case matches ic r (p, c # cs) of
        [] \<Rightarrow> execFrom ic r (Some c, cs)
      | z # zs \<Rightarrow> Some (take (Suc (length cs) - length (snd z)) (c # cs)))"

definition match0 :: "bool \<Rightarrow> rx \<Rightarrow> jsstring \<Rightarrow> jsstring option" where
  "match0 ic r s = execFrom ic r (None, s)"

text \<open>
  \<open>s.replace(r, '')\<close> for a regular expression with the \<open>g\<close> flag: every match, found from
  left to right, is deleted; after an empty match the next code unit is kept.
\<close>

function deleteFrom :: "bool \<Rightarrow> rx \<Rightarrow> pos \<Rightarrow> jsstring" where
  "deleteFrom ic r (p, a) =
     (case matches ic r (p, a) of
        z # zs \<Rightarrow>
          (if length (snd z) < length a then deleteFrom ic r (fst z, snd z)
           else (case a of [] \<Rightarrow> [] | c # cs \<Rightarrow> c # deleteFrom ic r (Some c, cs)))
      | [] \<Rightarrow> (case a of [] \<Rightarrow> [] | c # cs \<Rightarrow> c # deleteFrom ic r (Some c, cs)))"
  by pat_completeness auto
termination
  by (relation "measure (\<lambda>(ic, r, p, a). length a)") auto

declare deleteFrom.simps [simp del]

definition deleteAll :: "bool \<Rightarrow> rx \<Rightarrow> jsstring \<Rightarrow> jsstring" where
  "deleteAll ic r s = deleteFrom ic r (None, s)"

text \<open>Quantifiers of the source, written with the constructors above.\<close>

definition Plus :: "(cu \<Rightarrow> bool) \<Rightarrow> rx" where
  "Plus P = Seq (Cls P) (Star P)"

definition Rep12 :: "(cu \<Rightarrow> bool) \<Rightarrow> rx" where
  "Rep12 P = Seq (Cls P) (Opt (Cls P))"

definition Rep2 :: "(cu \<Rightarrow> bool) \<Rightarrow> rx" where
  "Rep2 P = Seq (Cls P) (Cls P)"

definition Rep3up :: "(cu \<Rightarrow> bool) \<Rightarrow> rx" where
  "Rep3up P = Seq (Cls P) (Seq (Cls P) (Seq (Cls P) (Star P)))"

fun Alts :: "rx list \<Rightarrow> rx" where
  "Alts [] = Cls (\<lambda>c. False)"
| "Alts [r] = r"
| "Alts (r # rs) = Alt r (Alts rs)"

section \<open>JSON values and their conversion to strings\<close>

text \<open>
  What \<open>JSON.parse\<close> returns. A number is kept as the string that \<open>String\<close> gives it (so
  \<open>0\<close> and \<open>-0\<close> are both \<open>js ''0''\<close>); an object is the list of its own properties in the
  order of \<open>Object.entries\<close>, each key once.
\<close>

datatype json =
    JNull
  | JBool bool
  | JNum jsstring
  | JStr jsstring
  | JArr "json list"
  | JObj "(jsstring \<times> json) list"

datatype exn = TypeError | ApiError

fun join :: "jsstring \<Rightarrow> jsstring list \<Rightarrow> jsstring" where
  "join sep [] = []"
| "join sep [x] = x"
| "join sep (x # xs) = x @ sep @ join sep xs"

text \<open>
  \<open>String(v)\<close>. An array is joined with commas, \<open>null\<close> elements printing as nothing. A
  parsed object prints through the inherited \<open>toString\<close> unless it has an own property of
  that name: that one is not callable, \<open>valueOf\<close> gives no primitive either, and the
  conversion throws a TypeError (\<open>None\<close>).
\<close>

fun String_of :: "json \<Rightarrow> jsstring option" where
  "String_of JNull = Some (js ''null'')"
| "String_of (JBool b) = Some (if b then js ''true'' else js ''false'')"
| "String_of (JNum n) = Some n"
| "String_of (JStr s) = Some s"
| "String_of (JArr xs) =
     map_option (join (js '',''))
       (those (map (\<lambda>x. if x = JNull then Some [] else String_of x) xs))"
| "String_of (JObj kvs) =
     (if js ''toString'' \<in> set (map fst kvs) then None else Some (js ''[object Object]''))"

text \<open>\<open>Object.entries\<close> of an object or of an array (whose keys are its indices).\<close>

definition Object_entries :: "json \<Rightarrow> (jsstring \<times> json) list" where
  "Object_entries v =
     (case v of
        JObj kvs \<Rightarrow> kvs
      | JArr xs \<Rightarrow> zip (map decimal [0 ..< length xs]) xs
      | _ \<Rightarrow> [])"

section \<open>Server-side validation\<close>

datatype lang = En | Hi | Te

datatype vresult = Accept jsstring | Reject jsstring

text \<open>The table \<open>t\<close> of corrective prompts, one definition for each field.\<close>

definition t_phone :: "lang \<Rightarrow> jsstring" where
  "t_phone l = (case l of
     En \<Rightarrow> js ''Please share a valid 10-digit mobile number (digits only).''
   | Hi \<Rightarrow> [0x915, 0x943, 0x92A, 0x92F, 0x93E] @ js '' 10 '' @ [0x905, 0x902, 0x915, 0x94B, 0x902] @ js '' '' @ [0x915, 0x93E] @ js '' '' @ [0x938, 0x939, 0x940] @ js '' '' @ [0x92E, 0x94B, 0x92C, 0x93E, 0x907, 0x932] @ js '' '' @ [0x928, 0x902, 0x92C, 0x930] @ js '' '' @ [0x92D, 0x947, 0x91C, 0x947, 0x902] @ js '' ('' @ [0x915, 0x947, 0x935, 0x932] @ js '' '' @ [0x905, 0x902, 0x915] @ js '')'' @ [0x964]
   | Te \<Rightarrow> [0xC26, 0xC2F, 0xC1A, 0xC47, 0xC38, 0xC3F] @ js '' '' @ [0xC38, 0xC30, 0xC48, 0xC28] @ js '' 10 '' @ [0xC05, 0xC02, 0xC15, 0xC46, 0xC32] @ js '' '' @ [0xC2E, 0xC4A, 0xC2C, 0xC48, 0xC32, 0xC4D] @ js '' '' @ [0xC28, 0xC02, 0xC2C, 0xC30, 0xC4D] @ js '' '' @ [0xC2A, 0xC02, 0xC2A, 0xC02, 0xC21, 0xC3F] @ js '' ('' @ [0xC05, 0xC02, 0xC15, 0xC46, 0xC32, 0xC41] @ js '' '' @ [0xC2E, 0xC3E, 0xC24, 0xC4D, 0xC30, 0xC2E, 0xC47] @ js '').'')"

definition t_grade :: "lang \<Rightarrow> jsstring" where
  "t_grade l = (case l of
     En \<Rightarrow> js ''Which class is the student in? (1'' @ [0x2013] @ js ''12)''
   | Hi \<Rightarrow> [0x935, 0x93F, 0x926, 0x94D, 0x92F, 0x93E, 0x930, 0x94D, 0x925, 0x940] @ js '' '' @ [0x915, 0x93F, 0x938] @ js '' '' @ [0x915, 0x915, 0x94D, 0x937, 0x93E] @ js '' '' @ [0x92E, 0x947, 0x902] @ js '' '' @ [0x939, 0x948] @ js ''? (1'' @ [0x2013] @ js ''12)''
   | Te \<Rightarrow> [0xC35, 0xC3F, 0xC26, 0xC4D, 0xC2F, 0xC3E, 0xC30, 0xC4D, 0xC25, 0xC3F] @ js '' '' @ [0xC0F] @ js '' '' @ [0xC24, 0xC30, 0xC17, 0xC24, 0xC3F, 0xC32, 0xC4B] @ js '' '' @ [0xC09, 0xC28, 0xC4D, 0xC28, 0xC3E, 0xC21, 0xC41] @ js ''/'' @ [0xC09, 0xC02, 0xC26, 0xC3F] @ js ''? (1'' @ [0x2013] @ js ''12)'')"

definition t_mode :: "lang \<Rightarrow> jsstring" where
  "t_mode l = (case l of
     En \<Rightarrow> js ''Do you prefer **online** (Zoom 1-on-1) or **home** (offline home tuition)?''
   | Hi \<Rightarrow> [0x906, 0x92A] @ js '' **online** (Zoom 1-on-1) '' @ [0x92F, 0x93E] @ js '' **home** ('' @ [0x911, 0x92B, 0x932, 0x93E, 0x907, 0x928] @ js '' '' @ [0x939, 0x94B, 0x92E] @ js '' '' @ [0x91F, 0x94D, 0x92F, 0x942, 0x936, 0x928] @ js '') '' @ [0x91A, 0x93E, 0x939, 0x924, 0x947] @ js '' '' @ [0x939, 0x948, 0x902] @ js ''?''
   | Te \<Rightarrow> [0xC2E, 0xC40, 0xC15, 0xC41] @ js '' **online** (Zoom 1-on-1) '' @ [0xC32, 0xC47, 0xC26, 0xC3E] @ js '' **home** ('' @ [0xC35, 0xC26, 0xC4D, 0xC26, 0xC15, 0xC41] @ js '' '' @ [0xC35, 0xC1A, 0xC4D, 0xC1A, 0xC3F] @ js '') '' @ [0xC15, 0xC3E, 0xC35, 0xC3E, 0xC32, 0xC3E] @ js ''?'')"

definition t_area :: "lang \<Rightarrow> jsstring" where
  "t_area l = (case l of
     En \<Rightarrow> js ''Please share your area/locality (e.g., Madhapur, Kondapur).''
   | Hi \<Rightarrow> [0x915, 0x943, 0x92A, 0x92F, 0x93E] @ js '' '' @ [0x905, 0x92A, 0x928, 0x93E] @ js '' '' @ [0x915, 0x94D, 0x937, 0x947, 0x924, 0x94D, 0x930] @ js ''/'' @ [0x932, 0x94B, 0x915, 0x948, 0x932, 0x93F, 0x91F, 0x940] @ js '' '' @ [0x92C, 0x924, 0x93E, 0x90F, 0x902] @ js '' ('' @ [0x91C, 0x948, 0x938, 0x947] @ js '': '' @ [0x92E, 0x93E, 0x927, 0x93E, 0x92A, 0x941, 0x930] @ js '', '' @ [0x915, 0x94B, 0x902, 0x921, 0x93E, 0x92A, 0x941, 0x930] @ js '')'' @ [0x964]
   | Te \<Rightarrow> [0xC26, 0xC2F, 0xC1A, 0xC47, 0xC38, 0xC3F] @ js '' '' @ [0xC2E, 0xC40] @ js '' '' @ [0xC0F, 0xC30, 0xC3F, 0xC2F, 0xC3E] @ js ''/'' @ [0xC32, 0xC4B, 0xC15, 0xC3E, 0xC32, 0xC3F, 0xC1F, 0xC40] @ js '' '' @ [0xC1A, 0xC46, 0xC2A, 0xC4D, 0xC2A, 0xC02, 0xC21, 0xC3F] @ js '' ('' @ [0xC09, 0xC26, 0xC3E] @ js '': '' @ [0xC2E, 0xC3E, 0xC27, 0xC3E, 0xC2A, 0xC42, 0xC30, 0xC4D] @ js '', '' @ [0xC15, 0xC4A, 0xC02, 0xC21, 0xC3E, 0xC2A, 0xC42, 0xC30, 0xC4D] @ js '').'')"

definition t_schedule :: "lang \<Rightarrow> jsstring" where
  "t_schedule l = (case l of
     En \<Rightarrow> js ''What days and time work? (e.g., Mon'' @ [0x2013] @ js ''Fri 6'' @ [0x2013] @ js ''7pm)''
   | Hi \<Rightarrow> [0x915, 0x94C, 0x928] @ js '' '' @ [0x938, 0x947] @ js '' '' @ [0x926, 0x93F, 0x928] @ js '' '' @ [0x914, 0x930] @ js '' '' @ [0x938, 0x92E, 0x92F] @ js '' '' @ [0x920, 0x940, 0x915] @ js '' '' @ [0x930, 0x939, 0x947, 0x902, 0x917, 0x947] @ js ''? ('' @ [0x91C, 0x948, 0x938, 0x947] @ js '': Mon'' @ [0x2013] @ js ''Fri 6'' @ [0x2013] @ js ''7pm)''
   | Te \<Rightarrow> [0xC0F] @ js '' '' @ [0xC30, 0xC4B, 0xC1C, 0xC41, 0xC32, 0xC32, 0xC4B] @ js '', '' @ [0xC0F] @ js '' '' @ [0xC38, 0xC2E, 0xC2F, 0xC02] @ js '' '' @ [0xC2C, 0xC3E, 0xC35, 0xC41, 0xC02, 0xC1F, 0xC41, 0xC02, 0xC26, 0xC3F] @ js ''? ('' @ [0xC09, 0xC26, 0xC3E] @ js '': Mon'' @ [0x2013] @ js ''Fri 6'' @ [0x2013] @ js ''7pm)'')"

text \<open>
  \<open>subjectRx\<close>, \<open>dayRx\<close> and \<open>timeRx\<close>, all three with the \<open>i\<close> flag, and the patterns
  written in place in the source.
\<close>

definition dashOrSpace :: "cu \<Rightarrow> bool" where
  "dashOrSpace c = (c = 0x2D \<or> c = 0x20)"

definition subjectRx :: rx where
  "subjectRx = Alts
     [Seq (Lit (js ''iit'')) (Seq (Opt (Cls dashOrSpace)) (Lit (js ''jee''))),
      Lit (js ''jee''),
      Lit (js ''neet''),
      Lit (js ''sat''),
      Seq (Lit (js ''iit'')) (Seq (Opt (Cls dashOrSpace)) (Lit (js ''foundation''))),
      Lit (js ''foundation''),
      Lit (js ''ntse''),
      Lit (js ''olympiad''),
      Lit (js ''cbse''),
      Lit (js ''icse''),
      Lit (js ''ib''),
      Lit (js ''school'')]"

definition dayRx :: rx where
  "dayRx = Alts [Lit (js ''mon''), Lit (js ''tue''), Lit (js ''wed''), Lit (js ''thu''),
                 Lit (js ''fri''), Lit (js ''sat''), Lit (js ''sun'')]"

definition timeRx :: rx where
  "timeRx =
     Seq WordB (Seq (Rep12 digit) (Seq (Opt (Seq (Lit (js '':'')) (Rep2 digit)))
       (Seq (Star space) (Seq (Opt (Alt (Lit (js ''am'')) (Lit (js ''pm'')))) WordB))))"

definition areaLetter :: "cu \<Rightarrow> bool" where
  "areaLetter c = (upperAZ c \<or> lowerAZ c \<or> (0x0900 \<le> c \<and> c \<le> 0x097F)
                    \<or> (0x0C00 \<le> c \<and> c \<le> 0x0C7F))"

definition onlyDigits :: "jsstring \<Rightarrow> jsstring" where
  "onlyDigits s = deleteAll False (Plus (\<lambda>c. \<not> digit c)) s"

text \<open>
  \<open>validateUpdate(key, value, lang)\<close>. The first argument is \<open>String.prototype.toLowerCase\<close>
  of the runtime, whose Unicode table is not part of the repository. Every branch of the
  source converts \<open>value\<close> with \<open>String\<close> before anything else; the only caller passes
  \<open>en\<close>, \<open>hi\<close> or \<open>te\<close> as the language.
\<close>

definition validateUpdate ::
    "(jsstring \<Rightarrow> jsstring) \<Rightarrow> jsstring \<Rightarrow> json \<Rightarrow> lang \<Rightarrow> exn + vresult" where
  "validateUpdate toLowerCase key val l =
     (case String_of val of
        None \<Rightarrow> Inl TypeError
      | Some str \<Rightarrow> Inr
         (if key = js ''phone'' then
            (let d = onlyDigits str in
             if length d = 10 then Accept d
             else if length d = 12 \<and> take 2 d = js ''91'' then Accept (drop 2 d)
             else Reject (or_else (t_phone l) (t_phone En)))
          else if key = js ''grade'' then
            (let g = parseInt (or_else (case match0 False (Plus digit) str of
                                          None \<Rightarrow> [] | Some x \<Rightarrow> x) []) in
             case g of
               None \<Rightarrow> Reject (or_else (t_grade l) (t_grade En))
             | Some n \<Rightarrow>
                 if n \<ge> 1 \<and> n \<le> 12 then Accept (decimal (nat n))
                 else Reject (or_else (t_grade l) (t_grade En)))
          else if key = js ''mode'' then
            (let v = toLowerCase str in
             if test False (Lit (js ''home'')) v then Accept (js ''home'')
             else if test False (Alt (Lit (js ''online'')) (Lit (js ''zoom''))) v
               then Accept (js ''online'')
             else Reject (or_else (t_mode l) (t_mode En)))
          else if key = js ''area'' then
            (let s = trim str in
             if test True subjectRx s then Reject (or_else (t_area l) (t_area En))
             else if test False (Rep3up areaLetter) s then Accept s
             else Reject (or_else (t_area l) (t_area En)))
          else if key = js ''schedule'' then
            (let s = toLowerCase str in
             if test False (Seq Bol (Seq (Alt (Lit (js ''online'')) (Lit (js ''home''))) Eol)) s
               then Reject (or_else (t_schedule l) (t_schedule En))
             else if test True dayRx s \<or> test True timeRx s then Accept (trim str)
             else Reject (or_else (t_schedule l) (t_schedule En)))
          else Accept (trim str)))"

text \<open>
  \<open>toLowerCase\<close> on a string of ASCII code units, where it is independent of the Unicode
  table; the concrete turns below are evaluated with it.
\<close>

definition asciiLowerCase :: "jsstring \<Rightarrow> jsstring" where
  "asciiLowerCase s = map (\<lambda>c. if upperAZ c then c + 0x20 else c) s"

section \<open>The planner\<close>

text \<open>
  What the completion request of \<open>llmPlan\<close> comes to: the call fails (network, timeout, an
  error status), or it returns a body that \<open>JSON.parse\<close> cannot read, or a body that parses
  to a JSON value (a missing or empty body is read as \<open>{}\<close>).
\<close>

datatype completion = CallFails | Unparseable | Parsed json

record plan =
  updates :: json
  assistant_text :: jsstring
  next_field :: jsstring
  done_flag :: bool

text \<open>The four property checks that \<open>llmPlan\<close> makes on the parsed object.\<close>

definition normalizePlan :: "(jsstring \<times> json) list \<Rightarrow> plan" where
  "normalizePlan kvs =
     \<lparr> updates = (case map_of kvs (js ''updates'') of
                    Some (JObj u) \<Rightarrow> JObj u
                  | Some (JArr u) \<Rightarrow> JArr u
                  | _ \<Rightarrow> JObj []),
       assistant_text = (case map_of kvs (js ''assistant_text'') of
                    Some (JStr x) \<Rightarrow> x
                  | _ \<Rightarrow> js ''Okay.''),
       next_field = (case map_of kvs (js ''next_field'') of
                    Some (JStr x) \<Rightarrow> x
                  | _ \<Rightarrow> []),
       done_flag = (case map_of kvs (js ''done'') of
                    Some (JBool b) \<Rightarrow> b
                  | _ \<Rightarrow> False) \<rparr>"

text \<open>
  \<open>llmPlan\<close>. The request is outside any \<open>try\<close>, so its failure leaves the function. Only
  \<open>JSON.parse\<close> is guarded. \<open>typeof null\<close> is \<open>'object'\<close>, so \<open>null\<close> passes the shape check
  and reading \<open>json.updates\<close> throws a TypeError.
\<close>

definition llmPlan :: "completion \<Rightarrow> exn + plan" where
  "llmPlan c =
     (case c of
        CallFails \<Rightarrow> Inl ApiError
      | Unparseable \<Rightarrow> Inr (normalizePlan [])
      | Parsed j \<Rightarrow>
          (case j of
             JObj kvs \<Rightarrow> Inr (normalizePlan kvs)
           | JNull \<Rightarrow> Inl TypeError
           | _ \<Rightarrow> Inr (normalizePlan [])))"

section \<open>Conversation state and the Sheets sink\<close>

type_synonym answers = "jsstring \<rightharpoonup> jsstring"
type_synonym sessions = "jsstring \<rightharpoonup> answers"

definition ensureSession :: "sessions \<Rightarrow> jsstring \<Rightarrow> sessions \<times> answers" where
  "ensureSession S c = (case S c of None \<Rightarrow> (S(c \<mapsto> Map.empty), Map.empty) | Some a \<Rightarrow> (S, a))"

text \<open>
  \<open>validated[k] = v\<close> on a plain object: the key \<open>__proto__\<close> reaches the setter inherited
  from \<open>Object.prototype\<close>, which ignores a string, and no property is created.
\<close>

definition setProperty :: "answers \<Rightarrow> jsstring \<Rightarrow> jsstring \<Rightarrow> answers" where
  "setProperty obj k v = (if k = js ''__proto__'' then obj else obj(k \<mapsto> v))"

definition Object_assign :: "answers \<Rightarrow> answers \<Rightarrow> answers" where
  "Object_assign target source = target ++ source"

text \<open>\<open>answers.k || ''\<close>: an absent property reads as the empty string.\<close>

definition field :: "answers \<Rightarrow> jsstring \<Rightarrow> jsstring" where
  "field a k = or_else (case a k of None \<Rightarrow> [] | Some v \<Rightarrow> v) []"

datatype tab = PresalesTab | ChatLogTab | LeadsTab

datatype request = AppendRow tab "jsstring list" | UpdateRow tab "jsstring list"

datatype sinkCall = PresalesAppend | UserLogAppend | AssistantLogAppend | LeadUpdate

text \<open>
  What a turn cannot decide: the lowercasing of the runtime, the outcome of the planner
  call, whether the Sheets client is configured, which of the four Sheets calls of the
  turn fail, the clock read for each row, and the identifier drawn for a new conversation.
\<close>

record world =
  toLowerCase :: "jsstring \<Rightarrow> jsstring"
  completion :: completion
  sheets :: bool
  fails :: "sinkCall \<Rightarrow> bool"
  now :: "sinkCall \<Rightarrow> jsstring"
  randomUUID :: jsstring

text \<open>
  A call to the Sheets client: nothing is sent when the client is absent; otherwise the
  request is sent and the call returns \<open>True\<close> unless it throws.
\<close>

definition sheetsCall :: "world \<Rightarrow> sinkCall \<Rightarrow> request \<Rightarrow> bool \<times> request list" where
  "sheetsCall w c rq = (if sheets w then (\<not> fails w c, [rq]) else (True, []))"

definition LEADS_HEADER_COUNT :: nat where
  "LEADS_HEADER_COUNT = 12"

definition composeLeadRow :: "jsstring \<Rightarrow> jsstring \<Rightarrow> answers \<Rightarrow> jsstring list" where
  "composeLeadRow ts convId a =
     [ts,
      or_else convId [],
      field a (js ''parent_name''),
      field a (js ''phone''),
      field a (js ''student_name''),
      field a (js ''grade''),
      field a (js ''subjects''),
      field a (js ''mode''),
      field a (js ''area''),
      field a (js ''schedule''),
      field a (js ''budget''),
      field a (js ''demo_consent'')]"

definition updateLeadFixedRow :: "world \<Rightarrow> jsstring \<Rightarrow> answers \<Rightarrow> bool \<times> request list" where
  "updateLeadFixedRow w convId a =
     sheetsCall w LeadUpdate
       (UpdateRow LeadsTab (take LEADS_HEADER_COUNT (composeLeadRow (now w LeadUpdate) convId a)))"

definition appendPresales :: "world \<Rightarrow> jsstring \<Rightarrow> bool \<times> request list" where
  "appendPresales w phone =
     sheetsCall w PresalesAppend
       (AppendRow PresalesTab [now w PresalesAppend, phone, js ''phone'', phone, js ''chat''])"

definition appendChatLog ::
    "world \<Rightarrow> sinkCall \<Rightarrow> jsstring \<Rightarrow> jsstring \<Rightarrow> jsstring \<Rightarrow> jsstring \<Rightarrow> jsstring
      \<Rightarrow> jsstring \<Rightarrow> jsstring \<Rightarrow> bool \<times> request list" where
  "appendChatLog w c convId role message phone page userAgent lng =
     sheetsCall w c
       (AppendRow ChatLogTab
          [now w c, or_else convId [], or_else role [], or_else message [], phone, [],
           page, userAgent, lng])"

section \<open>The shared turn handler\<close>

text \<open>
  A turn is handled from a request whose \<open>messages\<close> are a list of records with a role
  and a content, both strings, as the widget sends them. The handler is followed from
  its first statement to its last without another turn in between; what the awaited
  calls return is given by the \<open>world\<close>.
\<close>

record message =
  role :: jsstring
  content :: jsstring

record turn =
  convId :: jsstring
  messages :: "message list"
  lang :: "json option"
  page :: jsstring
  userAgent :: jsstring
  resStream :: bool

datatype sse = DataEvent jsstring jsstring | CommentEvent jsstring

datatype delivery = Returned jsstring jsstring answers | Streamed "sse list"

record outcome =
  delivered :: delivery
  requests :: "request list"

definition langHint :: "json option \<Rightarrow> lang" where
  "langHint l = (if l = Some (JStr (js ''hi'')) then Hi
                 else if l = Some (JStr (js ''te'')) then Te else En)"

definition langTag :: "lang \<Rightarrow> jsstring" where
  "langTag l = (case l of En \<Rightarrow> js ''en'' | Hi \<Rightarrow> js ''hi'' | Te \<Rightarrow> js ''te'')"

text \<open>
  The validation loop of \<open>handleTurn\<close>, over \<open>Object.entries(plan.updates)\<close>, with the
  variables \<open>badPrompt\<close> and \<open>validated\<close> as its state. A TypeError of \<open>validateUpdate\<close>
  leaves the loop and the handler.
\<close>

fun validateAll ::
    "(jsstring \<Rightarrow> jsstring) \<Rightarrow> lang \<Rightarrow> (jsstring \<times> json) list \<Rightarrow> jsstring \<times> answers
      \<Rightarrow> exn + (jsstring \<times> answers)" where
  "validateAll lc l [] st = Inr st"
| "validateAll lc l ((k, v) # kvs) (badPrompt, validated) =
     (case validateUpdate lc k v l of
        Inl e \<Rightarrow> Inl e
      | Inr (Accept x) \<Rightarrow> validateAll lc l kvs (badPrompt, setProperty validated k x)
      | Inr (Reject p) \<Rightarrow> validateAll lc l kvs (p, validated))"

text \<open>
  The three sink calls in the one \<open>try\<close> block at the end of the turn: a call that throws
  skips the calls after it.
\<close>

definition persistTurn ::
    "world \<Rightarrow> jsstring \<Rightarrow> jsstring \<Rightarrow> jsstring \<Rightarrow> jsstring \<Rightarrow> jsstring \<Rightarrow> jsstring
      \<Rightarrow> jsstring \<Rightarrow> answers \<Rightarrow> request list" where
  "persistTurn w cid userMessage reply phone pg ua lng a =
     (let (ok1, rq1) = appendChatLog w UserLogAppend cid (js ''user'') userMessage phone pg ua lng
      in if \<not> ok1 then rq1
         else let (ok2, rq2) =
                    appendChatLog w AssistantLogAppend cid (js ''assistant'') reply phone pg ua lng
              in if \<not> ok2 then rq1 @ rq2
                 else rq1 @ rq2 @ snd (updateLeadFixedRow w cid a))"

definition handleTurn :: "world \<Rightarrow> sessions \<Rightarrow> turn \<Rightarrow> sessions \<times> (exn + outcome)" where
  "handleTurn w S t =
     (let lh = langHint (lang t);
          (S1, sess) = ensureSession S (convId t);
          lastUser = find (\<lambda>m. role m = js ''user'') (rev (messages t))
      in case llmPlan (completion w) of
           Inl e \<Rightarrow> (S1, Inl e)
         | Inr pl \<Rightarrow>
            (case validateAll (toLowerCase w) lh (Object_entries (updates pl)) ([], Map.empty) of
               Inl e \<Rightarrow> (S1, Inl e)
             | Inr (badPrompt, validated) \<Rightarrow>
                (let a = Object_assign sess validated;
                     S2 = S1(convId t \<mapsto> a);
                     phone10 = onlyDigits (field a (js ''phone''));
                     phoneClean = (if length phone10 = 10 then phone10 else []);
                     rq0 = (if phoneClean \<noteq> [] then snd (appendPresales w phoneClean) else []);
                     reply = or_else badPrompt (or_else (assistant_text pl) (js ''Okay.''));
                     rq1 = persistTurn w (convId t)
                             (or_else (case lastUser of None \<Rightarrow> [] | Some m \<Rightarrow> content m) [])
                             reply phoneClean (page t) (userAgent t) (langTag lh) a
                 in (S2,
                     Inr \<lparr> delivered =
                             (if resStream t then Streamed [DataEvent reply (convId t)]
                              else Returned reply (convId t) a),
                           requests = rq0 @ rq1 \<rparr>))))"

section \<open>Routes\<close>

record body =
  b_convId :: "jsstring option"
  b_messages :: "message list"
  b_lang :: "json option"
  b_page :: jsstring
  b_userAgent :: jsstring

datatype response =
    Json200 jsstring jsstring answers
  | Json500 jsstring
  | EventStream "sse list"

definition turnOf :: "world \<Rightarrow> body \<Rightarrow> bool \<Rightarrow> turn" where
  "turnOf w b stream =
     \<lparr> convId = (case b_convId b of None \<Rightarrow> randomUUID w
                  | Some c \<Rightarrow> if c = [] then randomUUID w else c),
       messages = b_messages b, lang = b_lang b, page = b_page b,
       userAgent = b_userAgent b, resStream = stream \<rparr>"

definition chat :: "world \<Rightarrow> sessions \<Rightarrow> body \<Rightarrow> sessions \<times> response" where
  "chat w S b =
     (case handleTurn w S (turnOf w b False) of
        (S', Inr out) \<Rightarrow>
          (S', case delivered out of
                 Returned reply cid a \<Rightarrow> Json200 reply cid a
               | Streamed evs \<Rightarrow> EventStream evs)
      | (S', Inl e) \<Rightarrow> (S', Json500 (js ''chat_failed'')))"

definition chat_stream :: "world \<Rightarrow> sessions \<Rightarrow> body \<Rightarrow> sessions \<times> response" where
  "chat_stream w S b =
     (case handleTurn w S (turnOf w b True) of
        (S', Inr out) \<Rightarrow>
          (S', case delivered out of
                 Streamed evs \<Rightarrow> EventStream evs
               | Returned reply cid a \<Rightarrow> EventStream [])
      | (S', Inl e) \<Rightarrow> (S', EventStream [CommentEvent (js ''error'')]))"

section \<open>What a regular expression matches\<close>

text \<open>
  The matcher read as a relation: \<open>den ic r p u a\<close> says that \<open>r\<close> matches the text \<open>u\<close> when
  the code unit before it is \<open>p\<close> and the input after it is \<open>a\<close>. It is the statement that
  the lemmas on \<open>matches\<close> and \<open>test\<close> below are about.
\<close>

definition lastOr :: "cu option \<Rightarrow> jsstring \<Rightarrow> cu option" where
  "lastOr p u = (if u = [] then p else Some (last u))"

fun den :: "bool \<Rightarrow> rx \<Rightarrow> cu option \<Rightarrow> jsstring \<Rightarrow> jsstring \<Rightarrow> bool" where
  "den ic (Lit w) p u a = list_all2 (sameChar ic) w u"
| "den ic (Cls P) p u a = (\<exists>c. u = [c] \<and> P c)"
| "den ic (Seq r1 r2) p u a =
     (\<exists>u1 u2. u = u1 @ u2 \<and> den ic r1 p u1 (u2 @ a) \<and> den ic r2 (lastOr p u1) u2 a)"
| "den ic (Alt r1 r2) p u a = (den ic r1 p u a \<or> den ic r2 p u a)"
| "den ic (Opt r) p u a = (den ic r p u a \<or> u = [])"
| "den ic (Star P) p u a = list_all P u"
| "den ic Bol p u a = (u = [] \<and> p = None)"
| "den ic Eol p u a = (u = [] \<and> a = [])"
| "den ic WordB p u a = (u = [] \<and> isWordAt p \<noteq> isWordAt (nextChar a))"


section \<open>Notions of the specification\<close>

text \<open>
  The words of the specification, as functions on strings: a text that starts with, or
  contains, a given word (with or without regard to the case of ASCII letters), and the
  first maximal run of digits of a text.
\<close>

fun startsWith :: "bool \<Rightarrow> jsstring \<Rightarrow> jsstring \<Rightarrow> bool" where
  "startsWith ic [] s = True"
| "startsWith ic (x # xs) [] = False"
| "startsWith ic (x # xs) (c # cs) = (sameChar ic x c \<and> startsWith ic xs cs)"

fun contains :: "bool \<Rightarrow> jsstring \<Rightarrow> jsstring \<Rightarrow> bool" where
  "contains ic w [] = startsWith ic w []"
| "contains ic w (c # cs) = (startsWith ic w (c # cs) \<or> contains ic w cs)"

definition firstDigitRun :: "jsstring \<Rightarrow> jsstring" where
  "firstDigitRun s = takeWhile digit (dropWhile (\<lambda>c. \<not> digit c) s)"

definition subjectKeywords :: "jsstring list" where
  "subjectKeywords =
     [js ''iit-jee'', js ''iit jee'', js ''iitjee'', js ''jee'', js ''neet'', js ''sat'',
      js ''iit-foundation'', js ''iit foundation'', js ''iitfoundation'', js ''foundation'',
      js ''ntse'', js ''olympiad'', js ''cbse'', js ''icse'', js ''ib'', js ''school'']"

definition weekdays :: "jsstring list" where
  "weekdays = [js ''mon'', js ''tue'', js ''wed'', js ''thu'', js ''fri'', js ''sat'', js ''sun'']"

definition containsWeekday :: "jsstring \<Rightarrow> bool" where
  "containsWeekday s = list_ex (\<lambda>d. contains True d s) weekdays"

text \<open>
  The parts of a time of day: an hour of one or two digits, minutes (a colon and two
  digits) or nothing, a marker (am or pm in either case) or nothing.
\<close>

definition hourPart :: "jsstring \<Rightarrow> bool" where
  "hourPart h = (h \<noteq> [] \<and> length h \<le> 2 \<and> list_all digit h)"

definition minutesPart :: "jsstring \<Rightarrow> bool" where
  "minutesPart m = (m = [] \<or> (length m = 3 \<and> hd m = 0x3A \<and> list_all digit (tl m)))"

definition markerPart :: "jsstring \<Rightarrow> bool" where
  "markerPart ap = (ap = [] \<or> list_all2 (sameChar True) (js ''am'') ap
                      \<or> list_all2 (sameChar True) (js ''pm'') ap)"

text \<open>
  A time of day as the specification words it (hour, optional minutes, optional marker):
  the hour is the run of digits the text starts with.
\<close>

definition timeOfDay :: "jsstring \<Rightarrow> bool" where
  "timeOfDay x =
     (let h = takeWhile digit x; r = dropWhile digit x
      in hourPart h \<and> (markerPart r \<or> (minutesPart (take 3 r) \<and> take 3 r \<noteq> [] \<and> markerPart (drop 3 r))))"

text \<open>
  A time of day as \<open>timeRx\<close> reads it: white space may stand between the minutes and the
  marker, and the text starts and ends at a word boundary (\<open>p\<close> is the code unit before
  it, \<open>post\<close> the input after it).
\<close>

definition wordBoundary :: "cu option \<Rightarrow> cu option \<Rightarrow> bool" where
  "wordBoundary p q = (isWordAt p \<noteq> isWordAt q)"

definition timeWord :: "cu option \<Rightarrow> jsstring \<Rightarrow> jsstring \<Rightarrow> bool" where
  "timeWord p x post =
     (\<exists>h m sp ap. x = h @ m @ sp @ ap \<and> hourPart h \<and> minutesPart m \<and> list_all space sp
        \<and> markerPart ap \<and> wordBoundary p (nextChar (x @ post))
        \<and> wordBoundary (lastOr p x) (nextChar post))"

definition containsTimeWord :: "jsstring \<Rightarrow> bool" where
  "containsTimeWord s = (\<exists>pre x post. s = pre @ x @ post \<and> timeWord (lastOr None pre) x post)"

text \<open>
  The corrective prompts of the updates that \<open>validateUpdate\<close> rejects, in the order in
  which the turn iterates the updates.
\<close>

fun rejections ::
    "(jsstring \<Rightarrow> jsstring) \<Rightarrow> lang \<Rightarrow> (jsstring \<times> json) list \<Rightarrow> jsstring list" where
  "rejections lc l [] = []"
| "rejections lc l ((k, v) # kvs) =
     (case validateUpdate lc k v l of
        Inr (Reject p) \<Rightarrow> p # rejections lc l kvs
      | _ \<Rightarrow> rejections lc l kvs)"

text \<open>The replies that a turn hands to its caller: the one returned, or those streamed.\<close>

fun eventReplies :: "sse list \<Rightarrow> jsstring list" where
  "eventReplies [] = []"
| "eventReplies (DataEvent reply cid # evs) = reply # eventReplies evs"
| "eventReplies (CommentEvent c # evs) = eventReplies evs"

definition repliesOf :: "delivery \<Rightarrow> jsstring list" where
  "repliesOf d = (case d of Returned reply cid a \<Rightarrow> [reply] | Streamed evs \<Rightarrow> eventReplies evs)"

text \<open>The answers of a conversation; a conversation without a session has none.\<close>

definition answersOf :: "sessions \<Rightarrow> jsstring \<Rightarrow> answers" where
  "answersOf S c = (case S c of None \<Rightarrow> Map.empty | Some a \<Rightarrow> a)"

text \<open>Every stored value is one that \<open>validateUpdate\<close> accepts for its key.\<close>

definition sessionsValidated :: "(jsstring \<Rightarrow> jsstring) \<Rightarrow> sessions \<Rightarrow> bool" where
  "sessionsValidated lc S =
     (\<forall>c k v. answersOf S c k = Some v \<longrightarrow>
        (\<exists>raw l. validateUpdate lc k raw l = Inr (Accept v)))"

text \<open>
  The states of the session store that the server can be in: it starts empty, and every
  turn, whatever the request and the outcome of the planner and of the sink, takes it
  to the next one. The lowercasing of the runtime is the same in all turns.
\<close>

inductive reachable :: "(jsstring \<Rightarrow> jsstring) \<Rightarrow> sessions \<Rightarrow> bool" for lc where
  start: "reachable lc Map.empty"
| turn: "reachable lc S \<Longrightarrow> toLowerCase w = lc \<Longrightarrow> reachable lc (fst (handleTurn w S t))"

text \<open>The value \<open>v\<close> is accepted for the key \<open>k\<close> among the updates of this turn's plan.\<close>

definition acceptedThisTurn :: "world \<Rightarrow> turn \<Rightarrow> jsstring \<Rightarrow> jsstring \<Rightarrow> bool" where
  "acceptedThisTurn w t k v =
     (\<exists>pl raw. llmPlan (completion w) = Inr pl \<and> (k, raw) \<in> set (Object_entries (updates pl))
        \<and> validateUpdate (toLowerCase w) k raw (langHint (lang t)) = Inr (Accept v))"

text \<open>The plan with every default, and the shapes of a response that are not an object.\<close>

definition defaultPlan :: plan where
  "defaultPlan = \<lparr> updates = JObj [], assistant_text = js ''Okay.'', next_field = [],
                    done_flag = False \<rparr>"

definition notAnObject :: "json \<Rightarrow> bool" where
  "notAnObject j = (case j of JBool b \<Rightarrow> True | JNum n \<Rightarrow> True | JStr s \<Rightarrow> True
                    | JArr xs \<Rightarrow> True | JNull \<Rightarrow> False | JObj kvs \<Rightarrow> False)"

text \<open>
  The reply of a turn and the Sheets requests of a turn, as \<open>handleTurn\<close> computes them
  from the state \<open>badPrompt\<close> of the validation loop, the plan and the merged answers.
\<close>

definition turnReply :: "jsstring \<Rightarrow> plan \<Rightarrow> jsstring" where
  "turnReply bad pl = or_else bad (or_else (assistant_text pl) (js ''Okay.''))"

definition turnRequests :: "world \<Rightarrow> turn \<Rightarrow> answers \<Rightarrow> jsstring \<Rightarrow> request list" where
  "turnRequests w t a reply =
     (let phone10 = onlyDigits (field a (js ''phone''));
          phoneClean = (if length phone10 = 10 then phone10 else [])
      in (if phoneClean \<noteq> [] then snd (appendPresales w phoneClean) else [])
         @ persistTurn w (convId t)
             (or_else (case find (\<lambda>m. role m = js ''user'') (rev (messages t)) of
                         None \<Rightarrow> [] | Some m \<Rightarrow> content m) [])
             reply phoneClean (page t) (userAgent t) (langTag (langHint (lang t))) a)"

text \<open>
  The row of the lead sheet as the specification words it: the time, the conversation
  and the ten fields in the order of the header, an absent field as the empty string.
\<close>

definition leadColumns :: "jsstring list" where
  "leadColumns = [js ''parent_name'', js ''phone'', js ''student_name'', js ''grade'',
     js ''subjects'', js ''mode'', js ''area'', js ''schedule'', js ''budget'', js ''demo_consent'']"

definition valueOrEmpty :: "answers \<Rightarrow> jsstring \<Rightarrow> jsstring" where
  "valueOrEmpty a k = (case a k of None \<Rightarrow> [] | Some v \<Rightarrow> v)"

definition fullLeadRow :: "jsstring \<Rightarrow> jsstring \<Rightarrow> answers \<Rightarrow> jsstring list" where
  "fullLeadRow ts cid a = ts # cid # map (valueOrEmpty a) leadColumns"

section \<open>Concrete turns\<close>

text \<open>
  The end-to-end examples of the specification: a first turn of a conversation in
  English, with the Sheets client absent or present, and the plans that the planner
  returns in them.
\<close>

definition exampleWorld :: "bool \<Rightarrow> completion \<Rightarrow> world" where
  "exampleWorld sh c =
     \<lparr> toLowerCase = asciiLowerCase, completion = c, sheets = sh, fails = (\<lambda>c. False),
       now = (\<lambda>c. js ''2024-01-01T00:00:00.000Z''), randomUUID = js ''generated-id'' \<rparr>"

definition exampleTurn :: "jsstring \<Rightarrow> bool \<Rightarrow> turn" where
  "exampleTurn said stream =
     \<lparr> convId = js ''c1'', messages = [\<lparr> role = js ''user'', content = said \<rparr>],
       lang = Some (JStr (js ''en'')), page = js ''/'', userAgent = js ''widget'',
       resStream = stream \<rparr>"

definition exampleBody :: "jsstring \<Rightarrow> body" where
  "exampleBody said =
     \<lparr> b_convId = Some (js ''c1''), b_messages = [\<lparr> role = js ''user'', content = said \<rparr>],
       b_lang = Some (JStr (js ''en'')), b_page = js ''/'', b_userAgent = js ''widget'' \<rparr>"

definition areaPlan :: completion where
  "areaPlan = Parsed (JObj
     [(js ''updates'', JObj [(js ''area'', JStr (js ''NEET''))]),
      (js ''assistant_text'', JStr (js ''Thanks! Which days suit you?'')),
      (js ''next_field'', JStr (js ''schedule'')),
      (js ''done'', JBool False)])"

definition phonePlan :: completion where
  "phonePlan = Parsed (JObj
     [(js ''updates'', JObj [(js ''phone'', JStr (js ''+91 98765 43210''))]),
      (js ''assistant_text'', JStr (js ''Got it, what is the name of the student?'')),
      (js ''next_field'', JStr (js ''student_name'')),
      (js ''done'', JBool False)])"

text \<open>The turn of the phone example, with the Sheets client present, and what it hands back.\<close>

definition phoneSaid :: jsstring where
  "phoneSaid = js ''My number is +91 98765 43210''"

definition phoneReply :: jsstring where
  "phoneReply = js ''Got it, what is the name of the student?''"

definition exampleTime :: jsstring where
  "exampleTime = js ''2024-01-01T00:00:00.000Z''"

definition phoneAnswers :: answers where
  "phoneAnswers = [js ''phone'' \<mapsto> js ''9876543210'']"

definition phoneLeadRow :: "jsstring list" where
  "phoneLeadRow = [exampleTime, js ''c1'', [], js ''9876543210'', [], [], [], [], [], [], [], []]"

definition phoneOutcome :: outcome where
  "phoneOutcome =
     \<lparr> delivered = Returned phoneReply (js ''c1'') phoneAnswers,
       requests =
         [AppendRow PresalesTab
            [exampleTime, js ''9876543210'', js ''phone'', js ''9876543210'', js ''chat''],
          AppendRow ChatLogTab
            [exampleTime, js ''c1'', js ''user'', phoneSaid, js ''9876543210'', [], js ''/'',
             js ''widget'', js ''en''],
          AppendRow ChatLogTab
            [exampleTime, js ''c1'', js ''assistant'', phoneReply, js ''9876543210'', [], js ''/'',
             js ''widget'', js ''en''],
          UpdateRow LeadsTab phoneLeadRow] \<rparr>"

text \<open>What the turn of the area example hands back.\<close>

definition areaOutcome :: "bool \<Rightarrow> outcome" where
  "areaOutcome stream =
     \<lparr> delivered = (if stream then Streamed [DataEvent (t_area En) (js ''c1'')]
                     else Returned (t_area En) (js ''c1'') Map.empty),
       requests = [] \<rparr>"

section \<open>Properties of the matcher\<close>

lemma lastOr_simps [simp]:
  "lastOr p [] = p" "lastOr p (u @ [c]) = Some c" "lastOr p (c # u) = lastOr (Some c) u"
  "lastOr (lastOr p u) v = lastOr p (u @ v)"
  by (auto simp: lastOr_def)

lemma in_lit:
  "(q, a') \<in> set (lit ic w (p, a)) \<longleftrightarrow>
     (\<exists>u. a = u @ a' \<and> q = lastOr p u \<and> list_all2 (sameChar ic) w u)"
proof (induction w arbitrary: p a)
  case Nil
  then show ?case by auto
next
  case (Cons x xs)
  show ?case
  proof (cases a)
    case Nil
    then show ?thesis by (auto simp: list_all2_Cons1)
  next
    case (Cons c cs)
    have "(\<exists>u. c # cs = u @ a' \<and> q = lastOr p u \<and> list_all2 (sameChar ic) (x # xs) u) \<longleftrightarrow>
          (sameChar ic x c \<and> (\<exists>u'. cs = u' @ a' \<and> q = lastOr (Some c) u' \<and> list_all2 (sameChar ic) xs u'))"
      by (auto simp: list_all2_Cons1 Cons_eq_append_conv)
    then show ?thesis using Cons Cons.IH[of "Some c" cs] by simp
  qed
qed

lemma in_star:
  "(q, a') \<in> set (star P (p, a)) \<longleftrightarrow> (\<exists>u. a = u @ a' \<and> q = lastOr p u \<and> list_all P u)"
proof (induction a arbitrary: p)
  case Nil
  then show ?case by auto
next
  case (Cons c cs)
  have "(\<exists>u. c # cs = u @ a' \<and> q = lastOr p u \<and> list_all P u) \<longleftrightarrow>
          (a' = c # cs \<and> q = p) \<or>
          (P c \<and> (\<exists>u'. cs = u' @ a' \<and> q = lastOr (Some c) u' \<and> list_all P u'))"
    by (auto simp: Cons_eq_append_conv)
  then show ?case using Cons.IH[of "Some c"] by auto
qed

lemma in_matches:
  "(q, a') \<in> set (matches ic r (p, a)) \<longleftrightarrow>
     (\<exists>u. a = u @ a' \<and> q = lastOr p u \<and> den ic r p u a')"
proof (induction r arbitrary: p a q a')
  case (Lit w)
  then show ?case by (simp add: in_lit)
next
  case (Cls P)
  then show ?case by (auto split: list.splits)
next
  case (Seq r1 r2)
  have "(q, a') \<in> set (matches ic (Seq r1 r2) (p, a)) \<longleftrightarrow>
        (\<exists>q1 a1. (q1, a1) \<in> set (matches ic r1 (p, a)) \<and> (q, a') \<in> set (matches ic r2 (q1, a1)))"
    by auto
  also have "\<dots> \<longleftrightarrow> (\<exists>u1 u2. a = u1 @ u2 @ a' \<and> q = lastOr (lastOr p u1) u2
        \<and> den ic r1 p u1 (u2 @ a') \<and> den ic r2 (lastOr p u1) u2 a')"
    unfolding Seq.IH by blast
  also have "\<dots> \<longleftrightarrow> (\<exists>u. a = u @ a' \<and> q = lastOr p u \<and> den ic (Seq r1 r2) p u a')"
  proof
    assume "\<exists>u1 u2. a = u1 @ u2 @ a' \<and> q = lastOr (lastOr p u1) u2
        \<and> den ic r1 p u1 (u2 @ a') \<and> den ic r2 (lastOr p u1) u2 a'"
    then obtain u1 u2 where "a = (u1 @ u2) @ a'" "q = lastOr p (u1 @ u2)"
      "den ic r1 p u1 (u2 @ a')" "den ic r2 (lastOr p u1) u2 a'" by auto
    then show "\<exists>u. a = u @ a' \<and> q = lastOr p u \<and> den ic (Seq r1 r2) p u a'"
      by (intro exI[of _ "u1 @ u2"]) auto
  next
    assume "\<exists>u. a = u @ a' \<and> q = lastOr p u \<and> den ic (Seq r1 r2) p u a'"
    then obtain u1 u2 where "a = u1 @ u2 @ a'" "q = lastOr (lastOr p u1) u2"
      "den ic r1 p u1 (u2 @ a')" "den ic r2 (lastOr p u1) u2 a'" by auto
    then show "\<exists>u1 u2. a = u1 @ u2 @ a' \<and> q = lastOr (lastOr p u1) u2
        \<and> den ic r1 p u1 (u2 @ a') \<and> den ic r2 (lastOr p u1) u2 a'"
      by blast
  qed
  finally show ?case .
next
  case (Alt r1 r2)
  then show ?case by auto
next
  case (Opt r)
  then show ?case by auto
next
  case (Star P)
  then show ?case by (simp add: in_star)
next
  case Bol
  then show ?case by auto
next
  case Eol
  then show ?case by auto
next
  case WordB
  then show ?case by auto
qed

lemma matches_nonempty:
  "matches ic r (p, a) \<noteq> [] \<longleftrightarrow> (\<exists>u a'. a = u @ a' \<and> den ic r p u a')"
proof -
  have "matches ic r (p, a) \<noteq> [] \<longleftrightarrow> (\<exists>q a'. (q, a') \<in> set (matches ic r (p, a)))"
    by (cases "matches ic r (p, a)") auto
  then show ?thesis unfolding in_matches by auto
qed

lemma testFrom_iff:
  "testFrom ic r (p, a) \<longleftrightarrow> (\<exists>pre u post. a = pre @ u @ post \<and> den ic r (lastOr p pre) u post)"
proof (induction a arbitrary: p)
  case Nil
  then show ?case by (auto simp: matches_nonempty)
next
  case (Cons c cs)
  have "(\<exists>pre u post. c # cs = pre @ u @ post \<and> den ic r (lastOr p pre) u post) \<longleftrightarrow>
        (\<exists>u post. c # cs = u @ post \<and> den ic r p u post) \<or>
        (\<exists>pre' u post. cs = pre' @ u @ post \<and> den ic r (lastOr (Some c) pre') u post)"
    (is "?L \<longleftrightarrow> ?A \<or> ?B")
  proof
    assume ?L
    then obtain pre u post where h: "c # cs = pre @ u @ post" "den ic r (lastOr p pre) u post"
      by blast
    show "?A \<or> ?B"
    proof (cases pre)
      case Nil
      with h show ?thesis by auto
    next
      case (Cons x pre')
      with h have "cs = pre' @ u @ post" "den ic r (lastOr (Some c) pre') u post" by auto
      then show ?thesis by blast
    qed
  next
    assume "?A \<or> ?B"
    then show ?L
    proof
      assume ?A
      then obtain u post where "c # cs = [] @ u @ post" "den ic r (lastOr p []) u post" by auto
      then show ?L by blast
    next
      assume ?B
      then obtain pre' u post where "c # cs = (c # pre') @ u @ post"
        "den ic r (lastOr p (c # pre')) u post" by auto
      then show ?L by blast
    qed
  qed
  then show ?case by (simp add: matches_nonempty Cons.IH)
qed

lemma test_iff:
  "test ic r s \<longleftrightarrow> (\<exists>pre u post. s = pre @ u @ post \<and> den ic r (lastOr None pre) u post)"
  by (simp add: test_def testFrom_iff)

lemma star_first:
  "star P (p, a) \<noteq> [] \<and> hd (star P (p, a)) = (lastOr p (takeWhile P a), dropWhile P a)"
  by (induction a arbitrary: p) (auto simp: hd_append)

lemma star_hd:
  "star P (p, a) = (lastOr p (takeWhile P a), dropWhile P a) # tl (star P (p, a))"
  using star_first[of P p a] by (metis list.collapse)

lemma matches_Plus:
  "matches ic (Plus P) (p, a) =
     (case a of [] \<Rightarrow> [] | c # cs \<Rightarrow> if P c then star P (Some c, cs) else [])"
  by (simp add: Plus_def split: list.splits)

lemma filter_dropWhile_not: "filter P (dropWhile (\<lambda>c. \<not> P c) xs) = filter P xs"
  by (induction xs) auto

lemma deleteFrom_nondigits:
  "deleteFrom ic (Plus (\<lambda>c. \<not> digit c)) (p, a) = filter digit a"
proof (induction a arbitrary: p rule: length_induct)
  case (1 a)
  show ?case
  proof (cases a)
    case Nil
    then show ?thesis by (simp add: deleteFrom.simps matches_Plus)
  next
    case (Cons c cs)
    show ?thesis
    proof (cases "digit c")
      case True
      have "length cs < length a" using Cons by simp
      with 1 have "deleteFrom ic (Plus (\<lambda>c. \<not> digit c)) (Some c, cs) = filter digit cs" by blast
      with True Cons show ?thesis
        by (simp add: deleteFrom.simps[of _ _ p "c # cs"] matches_Plus)
    next
      case False
      let ?P = "\<lambda>c. \<not> digit c"
      let ?rest = "dropWhile ?P cs"
      have len: "length ?rest < length a" using Cons
        by (simp add: le_imp_less_Suc length_dropWhile_le)
      with 1 have ih: "deleteFrom ic (Plus ?P) (lastOr (Some c) (takeWhile ?P cs), ?rest) = filter digit ?rest"
        by blast
      have m: "matches ic (Plus ?P) (p, c # cs) =
            (lastOr (Some c) (takeWhile ?P cs), ?rest) # tl (star ?P (Some c, cs))"
        using False Cons star_hd[of ?P "Some c" cs] by (simp add: matches_Plus)
      show ?thesis
        using len ih False Cons
        by (simp add: deleteFrom.simps[of _ _ p "c # cs"] m filter_dropWhile_not)
    qed
  qed
qed

lemma onlyDigits_filter: "onlyDigits s = filter digit s"
  by (simp add: onlyDigits_def deleteAll_def deleteFrom_nondigits)

lemma take_length_dropWhile:
  "take (length xs - length (dropWhile P xs)) xs = takeWhile P xs"
  by (metis append_eq_conv_conj length_append takeWhile_dropWhile_id add_diff_cancel_right')

lemma execFrom_digits:
  "execFrom ic (Plus digit) (p, a) =
     (if list_ex digit a then Some (takeWhile digit (dropWhile (\<lambda>c. \<not> digit c) a)) else None)"
proof (induction a arbitrary: p)
  case Nil
  then show ?case by (simp add: matches_Plus)
next
  case (Cons c cs)
  show ?case
  proof (cases "digit c")
    case True
    have m: "matches ic (Plus digit) (p, c # cs) =
            (lastOr (Some c) (takeWhile digit cs), dropWhile digit cs) # tl (star digit (Some c, cs))"
      using True star_hd[of digit "Some c" cs] by (simp add: matches_Plus)
    have "take (Suc (length cs) - length (dropWhile digit cs)) (c # cs) = c # takeWhile digit cs"
      using take_length_dropWhile[of cs digit] length_dropWhile_le[of digit cs]
      by (simp add: Suc_diff_le)
    then show ?thesis using True by (simp add: m)
  next
    case False
    then show ?thesis using Cons.IH by (simp add: matches_Plus)
  qed
qed

lemma match0_digits:
  "match0 ic (Plus digit) s =
     (if list_ex digit s then Some (takeWhile digit (dropWhile (\<lambda>c. \<not> digit c) s)) else None)"
  by (simp add: match0_def execFrom_digits)

section \<open>The phone validator\<close>

text \<open>
  C4. For every raw string given to the phone validator: when the string without its
  non-digit characters has exactly 10 digits it is accepted with those digits; when it
  has exactly 12 digits that start with 91 it is accepted with the last 10 of them;
  every other string is rejected with the phone prompt of the language tag, which is the
  English one for every tag other than \<open>hi\<close> and \<open>te\<close>.
\<close>

theorem phone_validation:
  "validateUpdate lc (js ''phone'') (JStr raw) (langHint tag) =
     Inr (let d = filter digit raw in
          if length d = 10 then Accept d
          else if length d = 12 \<and> take 2 d = js ''91'' then Accept (drop 2 d)
          else Reject (if tag = Some (JStr (js ''hi'')) then t_phone Hi
                       else if tag = Some (JStr (js ''te'')) then t_phone Te
                       else t_phone En))"
proof -
  have ne: "t_phone l \<noteq> []" for l
    by (cases l) (simp_all add: t_phone_def js_def)
  have "or_else (t_phone (langHint tag)) (t_phone En) =
          (if tag = Some (JStr (js ''hi'')) then t_phone Hi
           else if tag = Some (JStr (js ''te'')) then t_phone Te
           else t_phone En)"
    using ne by (simp add: or_else_def langHint_def)
  then show ?thesis
    by (simp add: validateUpdate_def onlyDigits_filter Let_def)
qed

theorem phone_validation_witness:
  "validateUpdate asciiLowerCase (js ''phone'') (JStr (js ''+91 98765 43210''))
       (langHint (Some (JStr (js ''fr'')))) = Inr (Accept (js ''9876543210''))
   \<and> validateUpdate asciiLowerCase (js ''phone'') (JStr (js ''12345''))
       (langHint (Some (JStr (js ''fr'')))) = Inr (Reject (t_phone En))"
  using phone_validation [of asciiLowerCase "js ''+91 98765 43210''" "Some (JStr (js ''fr''))"]
        phone_validation [of asciiLowerCase "js ''12345''" "Some (JStr (js ''fr''))"]
  by (simp add: js_def digit_def)

section \<open>Words contained in a text\<close>

lemma startsWith_iff:
  "startsWith ic w s \<longleftrightarrow> (\<exists>u post. s = u @ post \<and> list_all2 (sameChar ic) w u)"
proof (induction ic w s rule: startsWith.induct)
  case (1 ic s)
  then show ?case by simp
next
  case (2 ic x xs)
  then show ?case by (simp add: list_all2_Cons1)
next
  case (3 ic x xs c cs)
  then show ?case by (auto simp: list_all2_Cons1 Cons_eq_append_conv)
qed

lemma contains_iff:
  "contains ic w s \<longleftrightarrow> (\<exists>pre u post. s = pre @ u @ post \<and> list_all2 (sameChar ic) w u)"
proof (induction s)
  case Nil
  then show ?case by (auto simp: startsWith_iff)
next
  case (Cons c cs)
  have "(\<exists>pre u post. c # cs = pre @ u @ post \<and> list_all2 (sameChar ic) w u) \<longleftrightarrow>
        (\<exists>u post. c # cs = u @ post \<and> list_all2 (sameChar ic) w u) \<or>
        (\<exists>pre u post. cs = pre @ u @ post \<and> list_all2 (sameChar ic) w u)"
    (is "?L \<longleftrightarrow> ?A \<or> ?B")
  proof
    assume ?L
    then obtain pre u post where h: "c # cs = pre @ u @ post" "list_all2 (sameChar ic) w u"
      by blast
    show "?A \<or> ?B"
    proof (cases pre)
      case Nil
      with h show ?thesis by auto
    next
      case (Cons x pre')
      with h have "cs = pre' @ u @ post" by simp
      with h show ?thesis by blast
    qed
  next
    assume "?A \<or> ?B"
    then show ?L
    proof
      assume ?A
      then obtain u post where "c # cs = [] @ u @ post" "list_all2 (sameChar ic) w u" by auto
      then show ?L by blast
    next
      assume ?B
      then obtain pre u post where "c # cs = (c # pre) @ u @ post" "list_all2 (sameChar ic) w u"
        by auto
      then show ?L by blast
    qed
  qed
  then show ?case using Cons.IH by (simp only: contains.simps startsWith_iff)
qed

lemma test_Lit: "test ic (Lit w) s \<longleftrightarrow> contains ic w s"
  by (simp add: test_iff contains_iff)

lemma test_Alt: "test ic (Alt r1 r2) s \<longleftrightarrow> test ic r1 s \<or> test ic r2 s"
  by (auto simp: test_iff)

lemma sameChar_lower:
  "lowerAZ x \<Longrightarrow> sameChar True x c \<longleftrightarrow> (c = x \<or> c = x - 0x20)"
  unfolding sameChar_def canonicalize_def lowerAZ_def
  by (auto; unat_arith)

lemma sameChar_other:
  "\<not> lowerAZ x \<Longrightarrow> \<not> upperAZ x \<Longrightarrow> sameChar True x c \<longleftrightarrow> c = x"
  unfolding sameChar_def canonicalize_def lowerAZ_def upperAZ_def
  by (auto; unat_arith)

lemma lower_not_space: "lowerAZ x \<Longrightarrow> \<not> space x \<and> \<not> space (x - 0x20)"
  unfolding lowerAZ_def space_def
  by (auto; unat_arith)


lemma test_Seq_Lit_Opt_Lit:
  assumes "test ic (Seq (Lit w1) (Seq (Opt (Cls P)) (Lit w2))) s"
  shows "contains ic w2 s"
proof -
  obtain pre u post where 1: "s = pre @ u @ post"
      "den ic (Seq (Lit w1) (Seq (Opt (Cls P)) (Lit w2))) (lastOr None pre) u post"
    using assms unfolding test_iff by blast
  from 1(2) obtain u1 u2 where 2: "u = u1 @ u2"
      "den ic (Seq (Opt (Cls P)) (Lit w2)) (lastOr (lastOr None pre) u1) u2 post"
    unfolding den.simps(3) by blast
  from 2(2) obtain v1 v2 where 3: "u2 = v1 @ v2" "list_all2 (sameChar ic) w2 v2"
    unfolding den.simps(3) den.simps(1) by blast
  have "s = (pre @ u1 @ v1) @ v2 @ post" using 1(1) 2(1) 3(1) by simp
  with 3(2) show ?thesis unfolding contains_iff by blast
qed

lemma contains_suffix: "contains ic (w1 @ w2) s \<Longrightarrow> contains ic w2 s"
proof -
  assume "contains ic (w1 @ w2) s"
  then obtain pre u post where h: "s = pre @ u @ post" "list_all2 (sameChar ic) (w1 @ w2) u"
    by (auto simp: contains_iff)
  then obtain u1 u2 where "u = u1 @ u2" "list_all2 (sameChar ic) w2 u2"
    by (auto simp: list_all2_append1)
  with h have "s = (pre @ u1) @ u2 @ post" by simp
  with \<open>list_all2 (sameChar ic) w2 u2\<close> show ?thesis unfolding contains_iff by blast
qed

lemma trim_infix:
  assumes "u \<noteq> []" "\<not> space (hd u)" "\<not> space (last u)"
  shows "trim (pre @ u @ post) = dropWhile space pre @ u @ rev (dropWhile space (rev post))"
proof -
  obtain x u' where u: "u = x # u'" using assms(1) by (cases u) auto
  have 1: "dropWhile space (pre @ u @ post) = dropWhile space pre @ u @ post"
    using assms(2) u by (simp add: dropWhile_append3)
  have ru: "rev u = last u # rev (butlast u)"
    using assms(1) by (metis append_butlast_last_id rev.simps(2) rev_append rev_rev_ident append_Cons append_Nil rev_singleton_conv)
  have 2: "dropWhile space (rev post @ rev u @ rev (dropWhile space pre)) =
           dropWhile space (rev post) @ rev u @ rev (dropWhile space pre)"
    unfolding ru using assms(3) by (simp add: dropWhile_append3)
  show ?thesis by (simp add: trim_def 1 2)
qed

lemma contains_trim:
  assumes "contains True w s" "w \<noteq> []" "lowerAZ (hd w)" "lowerAZ (last w)"
  shows "contains True w (trim s)"
proof -
  obtain pre u post where h: "s = pre @ u @ post" "list_all2 (sameChar True) w u"
    using assms(1) by (auto simp: contains_iff)
  have len: "length u = length w" using h(2) by (simp add: list_all2_lengthD)
  then have ne: "u \<noteq> []" using assms(2) by auto
  have "sameChar True (hd w) (hd u)"
    using h(2) assms(2) ne by (cases w; cases u) auto
  then have a: "\<not> space (hd u)"
    using assms(3) lower_not_space[of "hd w"] by (auto simp: sameChar_lower)
  have "sameChar True (last w) (last u)"
    using h(2) assms(2) ne len
    by (simp add: last_conv_nth list_all2_conv_all_nth)
  then have b: "\<not> space (last u)"
    using assms(4) lower_not_space[of "last w"] by (auto simp: sameChar_lower)
  show ?thesis
    unfolding h(1) trim_infix[OF ne a b] contains_iff using h(2) by blast
qed

lemma test_subjectRx:
  "list_ex (\<lambda>w. contains True w s)
     [js ''jee'', js ''neet'', js ''sat'', js ''foundation'', js ''ntse'', js ''olympiad'',
      js ''cbse'', js ''icse'', js ''ib'', js ''school'']
   \<Longrightarrow> test True subjectRx s"
  by (auto simp: subjectRx_def test_Alt test_Lit)

lemma test_subjectRx_conv:
  "test True subjectRx s \<Longrightarrow>
   list_ex (\<lambda>w. contains True w s)
     [js ''jee'', js ''neet'', js ''sat'', js ''foundation'', js ''ntse'', js ''olympiad'',
      js ''cbse'', js ''icse'', js ''ib'', js ''school'']"
  by (auto simp: subjectRx_def test_Alt test_Lit dest: test_Seq_Lit_Opt_Lit)

lemma test_dayRx: "test True dayRx s \<longleftrightarrow> containsWeekday s"
  by (simp add: dayRx_def containsWeekday_def weekdays_def test_Alt test_Lit)

lemma or_else_prompt:
  "or_else (t_phone l) (t_phone En) = t_phone l"
  "or_else (t_grade l) (t_grade En) = t_grade l"
  "or_else (t_mode l) (t_mode En) = t_mode l"
  "or_else (t_area l) (t_area En) = t_area l"
  "or_else (t_schedule l) (t_schedule En) = t_schedule l"
  by (cases l; simp add: or_else_def t_phone_def t_grade_def t_mode_def t_area_def
        t_schedule_def js_def)+

lemma keyword_trim:
  assumes "w \<in> set [js ''jee'', js ''neet'', js ''sat'', js ''foundation'', js ''ntse'',
      js ''olympiad'', js ''cbse'', js ''icse'', js ''ib'', js ''school'']"
    and "contains True w s"
  shows "contains True w (trim s)"
proof -
  have "w \<noteq> [] \<and> lowerAZ (hd w) \<and> lowerAZ (last w)"
    using assms(1) by (auto simp: js_def lowerAZ_def)
  then show ?thesis using assms(2) contains_trim by blast
qed

lemma keyword_simple:
  assumes "list_ex (\<lambda>w. contains True w s) subjectKeywords"
  shows "\<exists>w \<in> set [js ''jee'', js ''neet'', js ''sat'', js ''foundation'', js ''ntse'',
      js ''olympiad'', js ''cbse'', js ''icse'', js ''ib'', js ''school'']. contains True w s"
proof -
  have j: "contains True (js ''iit-jee'') s \<or> contains True (js ''iit jee'') s
        \<or> contains True (js ''iitjee'') s \<Longrightarrow> contains True (js ''jee'') s"
    using contains_suffix[of True "js ''iit-''" "js ''jee''" s]
      contains_suffix[of True "js ''iit ''" "js ''jee''" s]
      contains_suffix[of True "js ''iit''" "js ''jee''" s]
    by (auto simp: js_def)
  have f: "contains True (js ''iit-foundation'') s \<or> contains True (js ''iit foundation'') s
        \<or> contains True (js ''iitfoundation'') s \<Longrightarrow> contains True (js ''foundation'') s"
    using contains_suffix[of True "js ''iit-''" "js ''foundation''" s]
      contains_suffix[of True "js ''iit ''" "js ''foundation''" s]
      contains_suffix[of True "js ''iit''" "js ''foundation''" s]
    by (auto simp: js_def)
  from assms show ?thesis
    unfolding subjectKeywords_def list_ex_iff using j f by auto
qed

lemma area_guard:
  assumes "list_ex (\<lambda>w. contains True w raw) subjectKeywords"
  shows "test True subjectRx (trim raw)"
proof -
  obtain w where w: "w \<in> set [js ''jee'', js ''neet'', js ''sat'', js ''foundation'', js ''ntse'',
      js ''olympiad'', js ''cbse'', js ''icse'', js ''ib'', js ''school'']" "contains True w raw"
    using keyword_simple[OF assms] by blast
  then have "contains True w (trim raw)" by (rule keyword_trim)
  with w(1) have "list_ex (\<lambda>w. contains True w (trim raw))
     [js ''jee'', js ''neet'', js ''sat'', js ''foundation'', js ''ntse'', js ''olympiad'',
      js ''cbse'', js ''icse'', js ''ib'', js ''school'']"
    unfolding list_ex_iff by blast
  then show ?thesis by (rule test_subjectRx)
qed


section \<open>The subject guard of the area validator\<close>

text \<open>
  C10. The subject guard of the area validator is an unanchored match without regard to
  case: every raw value that contains one of the subject keywords anywhere, also inside
  a longer word (\<open>ib\<close>, \<open>sat\<close>, \<open>school\<close>), is rejected with the area prompt, whether or
  not it names a locality.
\<close>

theorem area_rejects_subject_keywords:
  assumes "list_ex (\<lambda>w. contains True w raw) subjectKeywords"
  shows "validateUpdate lc (js ''area'') (JStr raw) l = Inr (Reject (t_area l))"
  using area_guard[OF assms]
  by (simp add: validateUpdate_def or_else_prompt js_def)

theorem area_rejects_subject_keywords_witness:
  "list_ex (\<lambda>w. contains True w (js ''Gachibowli'')) subjectKeywords
   \<and> validateUpdate asciiLowerCase (js ''area'') (JStr (js ''Gachibowli'')) Te = Inr (Reject (t_area Te))"
proof -
  have h: "list_ex (\<lambda>w. contains True w (js ''Gachibowli'')) subjectKeywords"
    by (simp add: subjectKeywords_def js_def sameChar_def canonicalize_def lowerAZ_def)
  show ?thesis
    using h area_rejects_subject_keywords [OF h, of asciiLowerCase Te] by simp
qed

section \<open>Digits and numbers\<close>

lemma digit_plain: "digit c \<Longrightarrow> \<not> space c \<and> c \<noteq> 0x2D \<and> c \<noteq> 0x2B"
  unfolding digit_def space_def by (auto; unat_arith)

lemma parseInt_digits:
  assumes "ds \<noteq> []" "list_all digit ds"
  shows "parseInt ds = Some (int (digitsValue ds))"
proof -
  obtain c cs where ds: "ds = c # cs" using assms(1) by (cases ds) auto
  then have c: "digit c" using assms(2) by simp
  have tw: "takeWhile digit ds = ds" using assms(2) by (simp add: list_all_iff)
  show ?thesis
    using digit_plain[OF c] tw ds by (simp add: parseInt_def Let_def)
qed

lemma parseInt_empty: "parseInt [] = None"
  by (simp add: parseInt_def)

lemma firstDigitRun_digits: "list_all digit (firstDigitRun s)"
  unfolding firstDigitRun_def list_all_iff using set_takeWhileD by fastforce

lemma firstDigitRun_nonempty: "firstDigitRun s \<noteq> [] \<longleftrightarrow> list_ex digit s"
proof -
  have "firstDigitRun s \<noteq> [] \<longleftrightarrow> dropWhile (\<lambda>c. \<not> digit c) s \<noteq> []"
    unfolding firstDigitRun_def
    by (metis (mono_tags, lifting) dropWhile_eq_Nil_conv hd_dropWhile list.collapse takeWhile.simps(1) takeWhile_eq_Nil_iff)
  then show ?thesis by (auto simp: list_ex_iff)
qed

lemma or_else_Nil: "or_else a [] = a"
  by (simp add: or_else_def)

lemma grade_by_first_run:
  "validateUpdate lc (js ''grade'') (JStr raw) l =
     Inr (let run = firstDigitRun raw in
          if run \<noteq> [] \<and> 1 \<le> digitsValue run \<and> digitsValue run \<le> 12
          then Accept (decimal (digitsValue run))
          else Reject (t_grade l))"
proof (cases "list_ex digit raw")
  case True
  then have ne: "firstDigitRun raw \<noteq> []" by (simp add: firstDigitRun_nonempty)
  have m: "match0 False (Plus digit) raw = Some (firstDigitRun raw)"
    using True by (simp add: match0_digits firstDigitRun_def)
  have p: "parseInt (firstDigitRun raw) = Some (int (digitsValue (firstDigitRun raw)))"
    using ne firstDigitRun_digits by (rule parseInt_digits)
  show ?thesis
    using ne by (simp add: validateUpdate_def m p or_else_Nil or_else_prompt Let_def js_def)
next
  case False
  then have e: "firstDigitRun raw = []" using firstDigitRun_nonempty by blast
  have m: "match0 False (Plus digit) raw = None"
    using False by (simp add: match0_digits)
  show ?thesis
    by (simp add: validateUpdate_def m e or_else_Nil or_else_prompt parseInt_empty js_def)
qed

lemma digit_of_nat: "d < 10 \<Longrightarrow> digit (of_nat (48 + d)) \<and> unat (of_nat (48 + d) - (0x30 :: cu)) = d"
proof -
  assume "d < 10"
  then have "d \<in> {0,1,2,3,4,5,6,7,8,9}" by auto
  then show ?thesis by (auto simp: digit_def)
qed

lemma decimal_digits: "list_all digit (decimal n) \<and> decimal n \<noteq> []"
proof (induction n rule: decimal.induct)
  case (1 n)
  show ?case
  proof (cases "n < 10")
    case True
    then show ?thesis using digit_of_nat[of n] by (simp add: decimal.simps[of n])
  next
    case False
    then show ?thesis using 1 digit_of_nat[of "n mod 10"] by (simp add: decimal.simps[of n])
  qed
qed

lemma digitsValue_snoc: "digitsValue (ds @ [c]) = 10 * digitsValue ds + unat (c - 0x30)"
  by (simp add: digitsValue_def)

lemma digitsValue_decimal: "digitsValue (decimal n) = n"
proof (induction n rule: decimal.induct)
  case (1 n)
  show ?case
  proof (cases "n < 10")
    case True
    then show ?thesis using digit_of_nat[of n] by (simp add: decimal.simps[of n] digitsValue_def)
  next
    case False
    then show ?thesis using 1 digit_of_nat[of "n mod 10"]
      by (simp add: decimal.simps[of n] digitsValue_snoc)
  qed
qed

lemma firstDigitRun_embedded:
  assumes "list_all (\<lambda>c. \<not> digit c) pre" "post = [] \<or> \<not> digit (hd post)"
  shows "firstDigitRun (pre @ decimal n @ post) = decimal n"
proof -
  obtain c cs where d: "decimal n = c # cs" "digit c"
    using decimal_digits[of n] by (cases "decimal n") auto
  have 1: "dropWhile (\<lambda>c. \<not> digit c) (pre @ decimal n @ post) = decimal n @ post"
    using assms(1) d by (simp add: dropWhile_append2 list_all_iff)
  have 2: "takeWhile digit (decimal n @ post) = decimal n"
  proof (cases post)
    case Nil
    then show ?thesis using decimal_digits[of n] by (simp add: list_all_iff)
  next
    case (Cons y ys)
    then have "\<not> digit y" using assms(2) by simp
    then show ?thesis using decimal_digits[of n] Cons
      by (simp add: takeWhile_append2 list_all_iff)
  qed
  show ?thesis by (simp add: firstDigitRun_def 1 2)
qed

section \<open>The patterns of the schedule validator\<close>

lemma list_all2_exact: "list_all2 (sameChar False) w u \<longleftrightarrow> u = w"
proof -
  have "sameChar False = (=)" by (auto simp: sameChar_def fun_eq_iff)
  moreover have "list_all2 (=) w u \<longleftrightarrow> w = u" by (simp add: list_all2_eq)
  ultimately show ?thesis by auto
qed

lemma lastOr_None: "lastOr None pre = None \<longleftrightarrow> pre = []"
  by (simp add: lastOr_def)

lemma test_exactly:
  "test False (Seq Bol (Seq (Alt (Lit w1) (Lit w2)) Eol)) s \<longleftrightarrow> s = w1 \<or> s = w2"
proof
  assume "test False (Seq Bol (Seq (Alt (Lit w1) (Lit w2)) Eol)) s"
  then obtain pre u post where 1: "s = pre @ u @ post"
      "den False (Seq Bol (Seq (Alt (Lit w1) (Lit w2)) Eol)) (lastOr None pre) u post"
    unfolding test_iff by blast
  from 1(2) have "pre = [] \<and> post = [] \<and> (u = w1 \<or> u = w2)"
    by (auto simp: list_all2_exact lastOr_None)
  with 1(1) show "s = w1 \<or> s = w2" by auto
next
  assume "s = w1 \<or> s = w2"
  then have "den False (Seq Bol (Seq (Alt (Lit w1) (Lit w2)) Eol)) (lastOr None []) s []"
    by (auto simp: list_all2_exact)
  then show "test False (Seq Bol (Seq (Alt (Lit w1) (Lit w2)) Eol)) s"
    unfolding test_iff by (metis append_Nil append_Nil2)
qed

lemma den_Seq_Cls:
  "den ic (Seq (Cls P) r) p u a \<longleftrightarrow> (\<exists>c u'. u = c # u' \<and> P c \<and> den ic r (Some c) u' a)"
proof
  assume "den ic (Seq (Cls P) r) p u a"
  then show "\<exists>c u'. u = c # u' \<and> P c \<and> den ic r (Some c) u' a" by auto
next
  assume "\<exists>c u'. u = c # u' \<and> P c \<and> den ic r (Some c) u' a"
  then obtain c u' where "u = [c] @ u'" "P c" "den ic r (lastOr p [c]) u' a" by auto
  then show "den ic (Seq (Cls P) r) p u a"
    unfolding den.simps by blast
qed

lemma den_Seq_WordB:
  "den ic (Seq WordB r) p u a \<longleftrightarrow> wordBoundary p (nextChar (u @ a)) \<and> den ic r p u a"
proof
  assume "den ic (Seq WordB r) p u a"
  then show "wordBoundary p (nextChar (u @ a)) \<and> den ic r p u a"
    by (auto simp: wordBoundary_def)
next
  assume "wordBoundary p (nextChar (u @ a)) \<and> den ic r p u a"
  then have "u = [] @ u" "den ic WordB p [] (u @ a)" "den ic r (lastOr p []) u a"
    by (auto simp: wordBoundary_def)
  then show "den ic (Seq WordB r) p u a"
    unfolding den.simps(3) by blast
qed

lemma den_Seq_WordB_end:
  "den ic (Seq r WordB) p u a \<longleftrightarrow> den ic r p u a \<and> wordBoundary (lastOr p u) (nextChar a)"
proof
  assume "den ic (Seq r WordB) p u a"
  then show "den ic r p u a \<and> wordBoundary (lastOr p u) (nextChar a)"
    by (auto simp: wordBoundary_def)
next
  assume "den ic r p u a \<and> wordBoundary (lastOr p u) (nextChar a)"
  then have "u = u @ []" "den ic r p u ([] @ a)" "den ic WordB (lastOr p u) [] a"
    by (auto simp: wordBoundary_def)
  then show "den ic (Seq r WordB) p u a"
    unfolding den.simps(3) by blast
qed

lemma den_Seq_Lit1:
  "den ic (Seq (Lit [x]) r) p u a \<longleftrightarrow>
     (\<exists>c u'. u = c # u' \<and> sameChar ic x c \<and> den ic r (Some c) u' a)"
proof
  assume "den ic (Seq (Lit [x]) r) p u a"
  then show "\<exists>c u'. u = c # u' \<and> sameChar ic x c \<and> den ic r (Some c) u' a"
    by (auto simp: list_all2_Cons1)
next
  assume "\<exists>c u'. u = c # u' \<and> sameChar ic x c \<and> den ic r (Some c) u' a"
  then obtain c u' where "u = [c] @ u'" "den ic (Lit [x]) p [c] (u' @ a)"
    "den ic r (lastOr p [c]) u' a" by auto
  then show "den ic (Seq (Lit [x]) r) p u a"
    unfolding den.simps(3) by blast
qed

lemma den_Rep12: "den ic (Rep12 P) p u a \<longleftrightarrow> u \<noteq> [] \<and> length u \<le> 2 \<and> list_all P u"
  by (cases u; cases "tl u"; cases "tl (tl u)") (auto simp: Rep12_def den_Seq_Cls simp del: den.simps(3))

lemma colon_only: "sameChar True 0x3A c \<longleftrightarrow> c = 0x3A"
  by (rule sameChar_other) (simp_all add: lowerAZ_def upperAZ_def)

lemma den_minutes:
  "den True (Opt (Seq (Lit (js '':'')) (Rep2 digit))) p m a \<longleftrightarrow> minutesPart m"
proof -
  have "den True (Seq (Lit [0x3A]) (Rep2 digit)) p m a \<longleftrightarrow>
          length m = 3 \<and> hd m = 0x3A \<and> list_all digit (tl m)"
    by (cases m; cases "tl m"; cases "tl (tl m)"; cases "tl (tl (tl m))")
       (auto simp: Rep2_def den_Seq_Lit1 den_Seq_Cls colon_only simp del: den.simps(3))
  then show ?thesis by (auto simp: minutesPart_def js_def)
qed

lemma den_marker:
  "den True (Opt (Alt (Lit (js ''am'')) (Lit (js ''pm'')))) p ap a \<longleftrightarrow> markerPart ap"
  by (auto simp: markerPart_def)

lemma den_timeRx: "den True timeRx p x post \<longleftrightarrow> timeWord p x post"
proof
  assume "den True timeRx p x post"
  then have 0: "wordBoundary p (nextChar (x @ post))"
    "den True (Seq (Rep12 digit) (Seq (Opt (Seq (Lit (js '':'')) (Rep2 digit)))
       (Seq (Star space) (Seq (Opt (Alt (Lit (js ''am'')) (Lit (js ''pm'')))) WordB)))) p x post"
    unfolding timeRx_def den_Seq_WordB by simp_all
  from 0(2) obtain h r where 1: "x = h @ r" "den True (Rep12 digit) p h (r @ post)"
    "den True (Seq (Opt (Seq (Lit (js '':'')) (Rep2 digit)))
       (Seq (Star space) (Seq (Opt (Alt (Lit (js ''am'')) (Lit (js ''pm'')))) WordB))) (lastOr p h) r post"
    unfolding den.simps(3)[of _ "Rep12 digit"] by blast
  from 1(3) obtain m r' where 2: "r = m @ r'"
    "den True (Opt (Seq (Lit (js '':'')) (Rep2 digit))) (lastOr p h) m (r' @ post)"
    "den True (Seq (Star space) (Seq (Opt (Alt (Lit (js ''am'')) (Lit (js ''pm'')))) WordB))
       (lastOr (lastOr p h) m) r' post"
    unfolding den.simps(3)[of _ "Opt (Seq (Lit (js '':'')) (Rep2 digit))"] by blast
  from 2(3) obtain sp r'' where 3: "r' = sp @ r''" "list_all space sp"
    "den True (Seq (Opt (Alt (Lit (js ''am'')) (Lit (js ''pm'')))) WordB)
       (lastOr (lastOr (lastOr p h) m) sp) r'' post"
    unfolding den.simps(3)[of _ "Star space"] den.simps(6) by blast
  from 3(3) have 4: "markerPart r''"
    "wordBoundary (lastOr (lastOr (lastOr (lastOr p h) m) sp) r'') (nextChar post)"
    unfolding den_Seq_WordB_end den_marker by simp_all
  have x: "x = h @ m @ sp @ r''" using 1(1) 2(1) 3(1) by simp
  have l: "lastOr p x = lastOr (lastOr (lastOr (lastOr p h) m) sp) r''"
    unfolding x by (simp only: lastOr_simps(4) append_assoc)
  have "hourPart h" using 1(2) unfolding den_Rep12 hourPart_def .
  moreover have "minutesPart m" using 2(2) unfolding den_minutes .
  ultimately show "timeWord p x post"
    unfolding timeWord_def using x 0(1) 3(2) 4 l by metis
next
  assume "timeWord p x post"
  then obtain h m sp ap where t: "x = h @ m @ sp @ ap" "hourPart h" "minutesPart m"
    "list_all space sp" "markerPart ap" "wordBoundary p (nextChar (x @ post))"
    "wordBoundary (lastOr p x) (nextChar post)"
    unfolding timeWord_def by blast
  have l: "lastOr p x = lastOr (lastOr (lastOr (lastOr p h) m) sp) ap"
    unfolding t(1) by (simp only: lastOr_simps(4) append_assoc)
  have 4: "den True (Seq (Opt (Alt (Lit (js ''am'')) (Lit (js ''pm'')))) WordB)
       (lastOr (lastOr (lastOr p h) m) sp) ap post"
    unfolding den_Seq_WordB_end den_marker using t(5,7) l by simp
  have 3: "den True (Seq (Star space) (Seq (Opt (Alt (Lit (js ''am'')) (Lit (js ''pm'')))) WordB))
       (lastOr (lastOr p h) m) (sp @ ap) post"
    unfolding den.simps(3)[of _ "Star space"] den.simps(6)
    using t(4) 4 by blast
  have m: "den True (Opt (Seq (Lit (js '':'')) (Rep2 digit))) (lastOr p h) m ((sp @ ap) @ post)"
    unfolding den_minutes using t(3) .
  have 2: "den True (Seq (Opt (Seq (Lit (js '':'')) (Rep2 digit)))
       (Seq (Star space) (Seq (Opt (Alt (Lit (js ''am'')) (Lit (js ''pm'')))) WordB)))
       (lastOr p h) (m @ sp @ ap) post"
    unfolding den.simps(3)[of _ "Opt (Seq (Lit (js '':'')) (Rep2 digit))"]
    using m 3 by blast
  have h: "den True (Rep12 digit) p h ((m @ sp @ ap) @ post)"
    unfolding den_Rep12 using t(2) unfolding hourPart_def .
  have 1: "den True (Seq (Rep12 digit) (Seq (Opt (Seq (Lit (js '':'')) (Rep2 digit)))
       (Seq (Star space) (Seq (Opt (Alt (Lit (js ''am'')) (Lit (js ''pm'')))) WordB))))
       p (h @ m @ sp @ ap) post"
    unfolding den.simps(3)[of _ "Rep12 digit"]
    using h 2 by blast
  show "den True timeRx p x post"
    unfolding timeRx_def den_Seq_WordB using 1 t(1,6) by simp
qed

lemma test_timeRx: "test True timeRx s \<longleftrightarrow> containsTimeWord s"
  by (simp add: test_iff den_timeRx containsTimeWord_def)

lemmas eval_defs = js_def digit_def upperAZ_def lowerAZ_def wordChar_def space_def
  sameChar_def canonicalize_def isWordAt_def nextChar_def asciiLowerCase_def trim_def

lemmas rx_defs = test_def timeRx_def dayRx_def Rep12_def Rep2_def

section \<open>The grade validator\<close>

text \<open>
  C5, as the code has it. For every raw string given to the grade validator, the first
  maximal run of digits is read as an integer; when it lies between 1 and 12 the string
  is accepted with the decimal digits of that integer, and otherwise (also when the
  string has no digit) it is rejected with the grade prompt. In particular an integer
  between 1 and 12 is accepted and returned in decimal wherever it stands in the string,
  provided that no digit stands before it and none follows it directly.
\<close>

theorem grade_validation:
  "validateUpdate lc (js ''grade'') (JStr raw) l =
     Inr (let run = firstDigitRun raw in
          if run \<noteq> [] \<and> 1 \<le> digitsValue run \<and> digitsValue run \<le> 12
          then Accept (decimal (digitsValue run))
          else Reject (t_grade l))
   \<and> (1 \<le> g \<and> g \<le> 12 \<and> list_all (\<lambda>c. \<not> digit c) pre \<and> (post = [] \<or> \<not> digit (hd post))
       \<longrightarrow> validateUpdate lc (js ''grade'') (JStr (pre @ decimal g @ post)) l
             = Inr (Accept (decimal g)))"
proof -
  have "validateUpdate lc (js ''grade'') (JStr (pre @ decimal g @ post)) l = Inr (Accept (decimal g))"
    if "1 \<le> g" "g \<le> 12" "list_all (\<lambda>c. \<not> digit c) pre" "post = [] \<or> \<not> digit (hd post)"
    using that decimal_digits[of g]
    by (simp add: grade_by_first_run firstDigitRun_embedded digitsValue_decimal)
  then show ?thesis using grade_by_first_run by blast
qed

theorem grade_validation_witness:
  "validateUpdate asciiLowerCase (js ''grade'') (JStr (js ''thirteen'')) En = Inr (Reject (t_grade En))
   \<and> validateUpdate asciiLowerCase (js ''grade'') (JStr (js ''13'')) En = Inr (Reject (t_grade En))
   \<and> (1 \<le> (7::nat) \<and> (7::nat) \<le> 12 \<and> list_all (\<lambda>c. \<not> digit c) (js ''grade '')
        \<and> (js ''th'' = [] \<or> \<not> digit (hd (js ''th''))))
   \<and> validateUpdate asciiLowerCase (js ''grade'') (JStr (js ''grade '' @ decimal 7 @ js ''th'')) En
        = Inr (Accept (js ''7''))"
proof -
  have h: "1 \<le> (7::nat) \<and> (7::nat) \<le> 12 \<and> list_all (\<lambda>c. \<not> digit c) (js ''grade '')
        \<and> (js ''th'' = [] \<or> \<not> digit (hd (js ''th'')))"
    by (simp add: js_def digit_def)
  have d: "decimal 7 = js ''7''" "decimal 1 = js ''1''"
    by (simp_all add: decimal.simps js_def)
  show ?thesis
    using h grade_validation [of asciiLowerCase "js ''thirteen''" En 7 "js ''grade ''" "js ''th''"]
      grade_validation [of asciiLowerCase "js ''13''" En 7 "js ''grade ''" "js ''th''"]
    by (simp add: d firstDigitRun_def digitsValue_def js_def digit_def)
qed

text \<open>
  C5 as it is stated promises this for every integer between 1 and 12 that the string
  holds anywhere. The string below holds 7, and it is rejected, because its first run of
  digits is 101.
\<close>

theorem grade_embedded_counterexample:
  "contains False (decimal 7) (js ''room 101, grade 7'')
   \<and> validateUpdate asciiLowerCase (js ''grade'') (JStr (js ''room 101, grade 7'')) En
       = Inr (Reject (t_grade En))"
proof -
  have r: "firstDigitRun (js ''room 101, grade 7'') = js ''101''"
    by (simp add: firstDigitRun_def js_def digit_def)
  have v: "digitsValue (js ''101'') = 101"
    by (simp add: digitsValue_def js_def)
  have c: "contains False (decimal 7) (js ''room 101, grade 7'')"
    by (simp add: decimal.simps js_def sameChar_def)
  show ?thesis using c by (simp add: grade_by_first_run r v)
qed

section \<open>The schedule validator\<close>

text \<open>
  C6, as the code has it. For every raw string given to the schedule validator: when
  its lowercased form is exactly \<open>online\<close> or exactly \<open>home\<close> it is rejected; otherwise,
  when the lowercased form contains a weekday abbreviation (in either case), or a time of
  day (an hour of one or two digits, then optionally a colon and two digits, then
  optionally white space, then optionally am or pm) that starts and ends at a word
  boundary, it is accepted with the original string, trimmed; otherwise it is rejected
  with the schedule prompt.
\<close>

theorem schedule_validation:
  "validateUpdate lc (js ''schedule'') (JStr raw) l =
     Inr (if lc raw = js ''online'' \<or> lc raw = js ''home'' then Reject (t_schedule l)
          else if containsWeekday (lc raw) \<or> containsTimeWord (lc raw) then Accept (trim raw)
          else Reject (t_schedule l))"
proof -
  have "validateUpdate lc (js ''schedule'') (JStr raw) l =
     Inr (if test False (Seq Bol (Seq (Alt (Lit (js ''online'')) (Lit (js ''home''))) Eol)) (lc raw)
          then Reject (t_schedule l)
          else if test True dayRx (lc raw) \<or> test True timeRx (lc raw) then Accept (trim raw)
          else Reject (t_schedule l))"
    by (simp add: validateUpdate_def or_else_prompt js_def)
  then show ?thesis
    by (simp only: test_exactly test_dayRx test_timeRx)
qed

theorem schedule_validation_witness:
  "validateUpdate asciiLowerCase (js ''schedule'') (JStr (js ''Mon-Fri 6-7pm '')) En
      = Inr (Accept (js ''Mon-Fri 6-7pm''))
   \<and> validateUpdate asciiLowerCase (js ''schedule'') (JStr (js ''Online'')) En
      = Inr (Reject (t_schedule En))
   \<and> validateUpdate asciiLowerCase (js ''schedule'') (JStr (js ''at 5'')) En
      = Inr (Accept (js ''at 5''))
   \<and> validateUpdate asciiLowerCase (js ''schedule'') (JStr (js ''sometime'')) En
      = Inr (Reject (t_schedule En))"
proof -
  have 1: "containsWeekday (asciiLowerCase (js ''Mon-Fri 6-7pm ''))"
    by (simp add: containsWeekday_def weekdays_def eval_defs)
  have 2: "\<not> containsWeekday (asciiLowerCase (js ''sometime''))"
    "\<not> containsWeekday (asciiLowerCase (js ''at 5''))"
    by (simp_all add: containsWeekday_def weekdays_def eval_defs)
  have 3: "\<not> containsTimeWord (asciiLowerCase (js ''sometime''))"
    unfolding test_timeRx[symmetric] by (simp add: rx_defs eval_defs)
  have 4: "containsTimeWord (asciiLowerCase (js ''at 5''))"
    unfolding test_timeRx[symmetric] by (simp add: rx_defs eval_defs)
  show ?thesis
    using 1 2 3 4
      schedule_validation [of asciiLowerCase "js ''Mon-Fri 6-7pm ''" En]
      schedule_validation [of asciiLowerCase "js ''Online''" En]
      schedule_validation [of asciiLowerCase "js ''at 5''" En]
      schedule_validation [of asciiLowerCase "js ''sometime''" En]
    by (simp add: eval_defs)
qed

text \<open>
  C6 as it is stated accepts every value that contains a time of day. The value below
  contains \<open>5pm\<close>, is neither \<open>online\<close> nor \<open>home\<close>, and is rejected: the hour follows a
  letter, so \<open>timeRx\<close> finds no word boundary before it.
\<close>

theorem schedule_time_counterexample:
  "asciiLowerCase (js ''at5pm'') \<noteq> js ''online'' \<and> asciiLowerCase (js ''at5pm'') \<noteq> js ''home''
   \<and> contains False (js ''5pm'') (js ''at5pm'') \<and> timeOfDay (js ''5pm'')
   \<and> validateUpdate asciiLowerCase (js ''schedule'') (JStr (js ''at5pm'')) En
       = Inr (Reject (t_schedule En))"
proof -
  have 1: "\<not> test True dayRx (asciiLowerCase (js ''at5pm''))"
    by (simp add: rx_defs eval_defs)
  have 2: "\<not> test True timeRx (asciiLowerCase (js ''at5pm''))"
    by (simp add: rx_defs eval_defs)
  have 3: "\<not> test False (Seq Bol (Seq (Alt (Lit (js ''online'')) (Lit (js ''home''))) Eol))
              (asciiLowerCase (js ''at5pm''))"
    by (simp add: rx_defs eval_defs)
  have 4: "timeOfDay (js ''5pm'')"
    by (simp add: timeOfDay_def hourPart_def markerPart_def minutesPart_def eval_defs)
  have 5: "validateUpdate asciiLowerCase (js ''schedule'') (JStr (js ''at5pm'')) En
       = Inr (Reject (t_schedule En))"
    using 1 2 3 by (simp add: validateUpdate_def or_else_prompt js_def)
  show ?thesis using 4 5 by (simp add: eval_defs)
qed

section \<open>The validation loop\<close>

lemma prompt_nonempty:
  "t_phone l \<noteq> []" "t_grade l \<noteq> []" "t_mode l \<noteq> []" "t_area l \<noteq> []" "t_schedule l \<noteq> []"
  by (cases l; simp add: t_phone_def t_grade_def t_mode_def t_area_def t_schedule_def js_def)+

lemma keys_distinct:
  "js ''phone'' \<noteq> js ''grade''" "js ''phone'' \<noteq> js ''mode''" "js ''phone'' \<noteq> js ''area''"
  "js ''phone'' \<noteq> js ''schedule''" "js ''grade'' \<noteq> js ''mode''" "js ''grade'' \<noteq> js ''area''"
  "js ''grade'' \<noteq> js ''schedule''" "js ''mode'' \<noteq> js ''area''" "js ''mode'' \<noteq> js ''schedule''"
  "js ''area'' \<noteq> js ''schedule''"
  "js ''grade'' \<noteq> js ''phone''" "js ''mode'' \<noteq> js ''phone''" "js ''area'' \<noteq> js ''phone''"
  "js ''schedule'' \<noteq> js ''phone''" "js ''mode'' \<noteq> js ''grade''" "js ''area'' \<noteq> js ''grade''"
  "js ''schedule'' \<noteq> js ''grade''" "js ''area'' \<noteq> js ''mode''" "js ''schedule'' \<noteq> js ''mode''"
  "js ''schedule'' \<noteq> js ''area''"
  by (simp_all add: js_def)

lemma reject_has_string:
  assumes "validateUpdate lc k v l = Inr (Reject p)"
  shows "\<exists>str. String_of v = Some str"
  using assms by (cases "String_of v") (simp_all add: validateUpdate_def)

lemma reject_phone:
  assumes "validateUpdate lc k v l = Inr (Reject p)" "String_of v = Some str" "k = js ''phone''"
  shows "p = t_phone l"
  using assms
  by (simp add: validateUpdate_def or_else_prompt Let_def split: if_splits)

lemma reject_grade:
  assumes "validateUpdate lc k v l = Inr (Reject p)" "String_of v = Some str" "k = js ''grade''"
  shows "p = t_grade l"
  using assms
  by (simp add: validateUpdate_def or_else_prompt Let_def keys_distinct split: if_splits option.splits)

lemma reject_mode:
  assumes "validateUpdate lc k v l = Inr (Reject p)" "String_of v = Some str" "k = js ''mode''"
  shows "p = t_mode l"
  using assms
  by (simp add: validateUpdate_def or_else_prompt Let_def keys_distinct split: if_splits)

lemma reject_area:
  assumes "validateUpdate lc k v l = Inr (Reject p)" "String_of v = Some str" "k = js ''area''"
  shows "p = t_area l"
  using assms
  by (simp add: validateUpdate_def or_else_prompt Let_def keys_distinct split: if_splits)

lemma reject_schedule:
  assumes "validateUpdate lc k v l = Inr (Reject p)" "String_of v = Some str" "k = js ''schedule''"
  shows "p = t_schedule l"
  using assms
  by (simp add: validateUpdate_def or_else_prompt Let_def keys_distinct split: if_splits)

lemma reject_other:
  assumes "validateUpdate lc k v l = Inr (Reject p)" "String_of v = Some str" 
   "k \<noteq> js ''phone''" "k \<noteq> js ''grade''" "k \<noteq> js ''mode''" "k \<noteq> js ''area''"
        "k \<noteq> js ''schedule''"
  shows "False"
  using assms
  by (simp add: validateUpdate_def)

lemma reject_nonempty:
  assumes "validateUpdate lc k v l = Inr (Reject p)"
  shows "p \<noteq> []"
proof -
  obtain str where s: "String_of v = Some str"
    using reject_has_string[OF assms] by blast
  have "p = t_phone l \<or> p = t_grade l \<or> p = t_mode l \<or> p = t_area l \<or> p = t_schedule l"
    using reject_phone[OF assms s] reject_grade[OF assms s] reject_mode[OF assms s]
      reject_area[OF assms s] reject_schedule[OF assms s] reject_other[OF assms s]
    by blast
  then show ?thesis using prompt_nonempty[of l] by auto
qed

lemma validateAll_badPrompt:
  "validateAll lc l kvs (bad, val) = Inr (bad', val') \<Longrightarrow>
     bad' = (if rejections lc l kvs = [] then bad else last (rejections lc l kvs))"
proof (induction kvs arbitrary: bad val)
  case Nil
  then show ?case by simp
next
  case (Cons kv kvs)
  obtain k v where kv: "kv = (k, v)" by (cases kv)
  show ?case
  proof (cases "validateUpdate lc k v l")
    case (Inl e)
    with Cons.prems kv show ?thesis by simp
  next
    case (Inr r)
    show ?thesis
    proof (cases r)
      case (Accept x)
      with Inr Cons.prems kv have "validateAll lc l kvs (bad, setProperty val k x) = Inr (bad', val')"
        by simp
      from Cons.IH[OF this] show ?thesis using Inr Accept kv by simp
    next
      case (Reject p)
      with Inr Cons.prems kv have "validateAll lc l kvs (p, val) = Inr (bad', val')" by simp
      from Cons.IH[OF this] show ?thesis using Inr Reject kv by simp
    qed
  qed
qed

lemma rejections_nonempty: "p \<in> set (rejections lc l kvs) \<Longrightarrow> p \<noteq> []"
proof (induction kvs)
  case Nil
  then show ?case by simp
next
  case (Cons kv kvs)
  obtain k v where kv: "kv = (k, v)" by (cases kv)
  show ?case using Cons kv reject_nonempty[of lc k v l]
    by (auto split: sum.splits vresult.splits)
qed

lemma validateAll_source:
  "validateAll lc l kvs (bad, val) = Inr (bad', val') \<Longrightarrow> val' k = Some x \<Longrightarrow>
     val k = Some x \<or> (\<exists>raw. (k, raw) \<in> set kvs \<and> validateUpdate lc k raw l = Inr (Accept x))"
proof (induction kvs arbitrary: bad val)
  case Nil
  then show ?case by simp
next
  case (Cons kv kvs)
  obtain k0 v0 where kv: "kv = (k0, v0)" by (cases kv)
  show ?case
  proof (cases "validateUpdate lc k0 v0 l")
    case (Inl e)
    with Cons.prems(1) kv show ?thesis by simp
  next
    case (Inr r)
    show ?thesis
    proof (cases r)
      case (Accept x0)
      with Inr Cons.prems(1) kv
      have "validateAll lc l kvs (bad, setProperty val k0 x0) = Inr (bad', val')" by simp
      from Cons.IH[OF this Cons.prems(2)]
      have "setProperty val k0 x0 k = Some x
            \<or> (\<exists>raw. (k, raw) \<in> set kvs \<and> validateUpdate lc k raw l = Inr (Accept x))" .
      then show ?thesis
      proof
        assume a: "setProperty val k0 x0 k = Some x"
        show ?thesis
        proof (cases "k = k0 \<and> k0 \<noteq> js ''__proto__''")
          case True
          with a have "x = x0" by (simp add: setProperty_def)
          with True Inr Accept kv show ?thesis by auto
        next
          case False
          with a have "val k = Some x" by (auto simp: setProperty_def split: if_splits)
          then show ?thesis by simp
        qed
      next
        assume "\<exists>raw. (k, raw) \<in> set kvs \<and> validateUpdate lc k raw l = Inr (Accept x)"
        then show ?thesis by auto
      qed
    next
      case (Reject p)
      with Inr Cons.prems(1) kv have "validateAll lc l kvs (p, val) = Inr (bad', val')" by simp
      from Cons.IH[OF this Cons.prems(2)] show ?thesis by auto
    qed
  qed
qed

lemma validateAll_frame:
  "validateAll lc l kvs (bad, val) = Inr (bad', val') \<Longrightarrow>
   (\<And>raw x. (k, raw) \<in> set kvs \<Longrightarrow> validateUpdate lc k raw l \<noteq> Inr (Accept x)) \<Longrightarrow>
     val' k = val k"
proof (induction kvs arbitrary: bad val)
  case Nil
  then show ?case by simp
next
  case (Cons kv kvs)
  obtain k0 v0 where kv: "kv = (k0, v0)" by (cases kv)
  have rest: "\<And>raw x. (k, raw) \<in> set kvs \<Longrightarrow> validateUpdate lc k raw l \<noteq> Inr (Accept x)"
    using Cons.prems(2) by simp
  show ?case
  proof (cases "validateUpdate lc k0 v0 l")
    case (Inl e)
    with Cons.prems(1) kv show ?thesis by simp
  next
    case (Inr r)
    show ?thesis
    proof (cases r)
      case (Accept x0)
      with Inr Cons.prems(1) kv
      have "validateAll lc l kvs (bad, setProperty val k0 x0) = Inr (bad', val')" by simp
      from Cons.IH[OF this rest] have 1: "val' k = setProperty val k0 x0 k" .
      have "k \<noteq> k0" using Cons.prems(2)[of v0 x0] Inr Accept kv by auto
      then show ?thesis using 1 by (simp add: setProperty_def)
    next
      case (Reject p)
      with Inr Cons.prems(1) kv have "validateAll lc l kvs (p, val) = Inr (bad', val')" by simp
      from Cons.IH[OF this rest] show ?thesis .
    qed
  qed
qed

section \<open>The turn handler, case by case\<close>

lemma ensureSession_answers: "snd (ensureSession S c) = answersOf S c"
  by (simp add: ensureSession_def answersOf_def split: option.splits)

lemma ensureSession_sessions: "answersOf (fst (ensureSession S c)) c' = answersOf S c'"
  by (simp add: ensureSession_def answersOf_def split: option.splits)

lemma handleTurn_plan_error:
  "llmPlan (completion w) = Inl e \<Longrightarrow>
     handleTurn w S t = (fst (ensureSession S (convId t)), Inl e)"
  by (simp add: handleTurn_def Let_def split: prod.splits)

lemma handleTurn_validate_error:
  "llmPlan (completion w) = Inr pl \<Longrightarrow>
   validateAll (toLowerCase w) (langHint (lang t)) (Object_entries (updates pl)) ([], Map.empty) = Inl e \<Longrightarrow>
     handleTurn w S t = (fst (ensureSession S (convId t)), Inl e)"
  by (simp add: handleTurn_def Let_def split: prod.splits)

lemma handleTurn_ok:
  "llmPlan (completion w) = Inr pl \<Longrightarrow>
   validateAll (toLowerCase w) (langHint (lang t)) (Object_entries (updates pl)) ([], Map.empty)
     = Inr (bad, val) \<Longrightarrow>
     handleTurn w S t =
       ((fst (ensureSession S (convId t)))(convId t \<mapsto> Object_assign (answersOf S (convId t)) val),
        Inr \<lparr> delivered =
                (if resStream t then Streamed [DataEvent (turnReply bad pl) (convId t)]
                 else Returned (turnReply bad pl) (convId t)
                        (Object_assign (answersOf S (convId t)) val)),
              requests = turnRequests w t (Object_assign (answersOf S (convId t)) val)
                           (turnReply bad pl) \<rparr>)"
  by (simp add: handleTurn_def Let_def turnReply_def turnRequests_def
        ensureSession_answers[symmetric] split: prod.splits)

lemma handleTurn_success:
  assumes "snd (handleTurn w S t) = Inr out"
  obtains pl bad val where "llmPlan (completion w) = Inr pl"
    "validateAll (toLowerCase w) (langHint (lang t)) (Object_entries (updates pl)) ([], Map.empty)
       = Inr (bad, val)"
proof (cases "llmPlan (completion w)")
  case (Inl e)
  with assms handleTurn_plan_error[OF Inl, of S t] show ?thesis by simp
next
  case (Inr pl)
  show ?thesis
  proof (cases "validateAll (toLowerCase w) (langHint (lang t)) (Object_entries (updates pl)) ([], Map.empty)")
    case (Inl e)
    with assms handleTurn_validate_error[OF Inr Inl, of S] show ?thesis by simp
  next
    case (Inr r)
    obtain bad val where "r = (bad, val)" by (cases r)
    with Inr \<open>llmPlan (completion w) = Inr pl\<close> that show ?thesis by blast
  qed
qed

lemma turnReply_last:
  assumes "validateAll lc l kvs ([], Map.empty) = Inr (bad, val)"
  shows "turnReply bad pl =
     (if rejections lc l kvs \<noteq> [] then last (rejections lc l kvs)
      else if assistant_text pl \<noteq> [] then assistant_text pl else js ''Okay.'')"
proof (cases "rejections lc l kvs = []")
  case True
  with validateAll_badPrompt[OF assms] have "bad = []" by simp
  with True show ?thesis by (simp add: turnReply_def or_else_def)
next
  case False
  with validateAll_badPrompt[OF assms] have b: "bad = last (rejections lc l kvs)" by simp
  have "last (rejections lc l kvs) \<noteq> []"
    using False rejections_nonempty[of "last (rejections lc l kvs)" lc l kvs] by simp
  with b False show ?thesis by (simp add: turnReply_def or_else_def)
qed


lemma area_plan:
  "llmPlan (completion (exampleWorld sh areaPlan)) =
     Inr \<lparr> updates = JObj [(js ''area'', JStr (js ''NEET''))],
           assistant_text = js ''Thanks! Which days suit you?'',
           next_field = js ''schedule'', done_flag = False \<rparr>"
  by (simp add: exampleWorld_def areaPlan_def llmPlan_def normalizePlan_def js_def)

lemma area_NEET:
  "validateUpdate asciiLowerCase (js ''area'') (JStr (js ''NEET'')) En = Inr (Reject (t_area En))"
proof -
  have "test True subjectRx (trim (js ''NEET''))"
    by (simp add: test_def subjectRx_def eval_defs)
  then show ?thesis by (simp add: validateUpdate_def or_else_prompt js_def)
qed

lemma area_validateAll:
  "validateAll asciiLowerCase En [(js ''area'', JStr (js ''NEET''))] ([], Map.empty)
     = Inr (t_area En, Map.empty)"
  by (simp add: area_NEET)

lemma area_turn:
  "handleTurn (exampleWorld False areaPlan) Map.empty (exampleTurn (js ''NEET'') stream) =
     ([js ''c1'' \<mapsto> Map.empty], Inr (areaOutcome stream))"
proof -
  have l: "langHint (lang (exampleTurn (js ''NEET'') stream)) = En"
    by (simp add: exampleTurn_def langHint_def js_def)
  have v: "validateAll (toLowerCase (exampleWorld False areaPlan))
             (langHint (lang (exampleTurn (js ''NEET'') stream)))
             (Object_entries (updates \<lparr> updates = JObj [(js ''area'', JStr (js ''NEET''))],
                assistant_text = js ''Thanks! Which days suit you?'',
                next_field = js ''schedule'', done_flag = False \<rparr>)) ([], Map.empty)
           = Inr (t_area En, Map.empty)"
    unfolding l using area_validateAll by (simp add: exampleWorld_def Object_entries_def)
  have r: "turnReply (t_area En) pl = t_area En" for pl
    using prompt_nonempty(4)[of En] by (simp add: turnReply_def or_else_def)
  have q: "turnRequests (exampleWorld False areaPlan) t a reply = []" for t a reply
    by (simp add: turnRequests_def Let_def persistTurn_def appendChatLog_def appendPresales_def
          updateLeadFixedRow_def sheetsCall_def exampleWorld_def)
  show ?thesis
    unfolding handleTurn_ok[OF area_plan v]
    by (simp add: r q areaOutcome_def Object_assign_def answersOf_def ensureSession_def exampleTurn_def)
qed


lemma answersOf_upd:
  "answersOf (S(c \<mapsto> a)) c' = (if c' = c then a else answersOf S c')"
  by (simp add: answersOf_def)

lemma handleTurn_sessions:
  "(\<forall>c. answersOf (fst (handleTurn w S t)) c = answersOf S c)
   \<or> (\<exists>pl bad val. llmPlan (completion w) = Inr pl
        \<and> validateAll (toLowerCase w) (langHint (lang t)) (Object_entries (updates pl))
             ([], Map.empty) = Inr (bad, val)
        \<and> (\<forall>c. answersOf (fst (handleTurn w S t)) c =
               (if c = convId t then Object_assign (answersOf S c) val else answersOf S c)))"
proof (cases "llmPlan (completion w)")
  case (Inl e)
  then show ?thesis
    by (simp add: handleTurn_plan_error ensureSession_sessions)
next
  case (Inr pl)
  show ?thesis
  proof (cases "validateAll (toLowerCase w) (langHint (lang t)) (Object_entries (updates pl)) ([], Map.empty)")
    case (Inl e)
    with Inr show ?thesis
      by (simp add: handleTurn_validate_error ensureSession_sessions)
  next
    case r: (Inr r)
    obtain bad val where "r = (bad, val)" by (cases r)
    with r have v: "validateAll (toLowerCase w) (langHint (lang t)) (Object_entries (updates pl))
        ([], Map.empty) = Inr (bad, val)" by simp
    have "\<forall>c. answersOf (fst (handleTurn w S t)) c =
               (if c = convId t then Object_assign (answersOf S c) val else answersOf S c)"
      by (simp add: handleTurn_ok[OF Inr v] answersOf_upd ensureSession_sessions)
    with Inr v show ?thesis by blast
  qed
qed

lemma turn_source:
  assumes "answersOf (fst (handleTurn w S t)) c k = Some v"
  shows "answersOf S c k = Some v \<or> (c = convId t \<and> acceptedThisTurn w t k v)"
  using handleTurn_sessions[of w S t]
proof
  assume "\<forall>c. answersOf (fst (handleTurn w S t)) c = answersOf S c"
  with assms show ?thesis by simp
next
  assume "\<exists>pl bad val. llmPlan (completion w) = Inr pl
        \<and> validateAll (toLowerCase w) (langHint (lang t)) (Object_entries (updates pl))
             ([], Map.empty) = Inr (bad, val)
        \<and> (\<forall>c. answersOf (fst (handleTurn w S t)) c =
               (if c = convId t then Object_assign (answersOf S c) val else answersOf S c))"
  then obtain pl bad val where p: "llmPlan (completion w) = Inr pl"
    and v: "validateAll (toLowerCase w) (langHint (lang t)) (Object_entries (updates pl))
             ([], Map.empty) = Inr (bad, val)"
    and a: "\<And>c. answersOf (fst (handleTurn w S t)) c =
               (if c = convId t then Object_assign (answersOf S c) val else answersOf S c)"
    by blast
  show ?thesis
  proof (cases "c = convId t")
    case False
    with a assms show ?thesis by simp
  next
    case True
    with a assms have "(answersOf S c ++ val) k = Some v" by (simp add: Object_assign_def)
    then have "answersOf S c k = Some v \<or> val k = Some v" by (auto simp: map_add_Some_iff)
    then show ?thesis
    proof
      assume "val k = Some v"
      with validateAll_source[OF v this] True p show ?thesis
        unfolding acceptedThisTurn_def by auto
    qed simp
  qed
qed

lemma turn_frame:
  assumes "\<And>v. \<not> acceptedThisTurn w t k v"
  shows "answersOf (fst (handleTurn w S t)) c k = answersOf S c k"
  using handleTurn_sessions[of w S t]
proof
  assume "\<forall>c. answersOf (fst (handleTurn w S t)) c = answersOf S c"
  then show ?thesis by simp
next
  assume "\<exists>pl bad val. llmPlan (completion w) = Inr pl
        \<and> validateAll (toLowerCase w) (langHint (lang t)) (Object_entries (updates pl))
             ([], Map.empty) = Inr (bad, val)
        \<and> (\<forall>c. answersOf (fst (handleTurn w S t)) c =
               (if c = convId t then Object_assign (answersOf S c) val else answersOf S c))"
  then obtain pl bad val where p: "llmPlan (completion w) = Inr pl"
    and v: "validateAll (toLowerCase w) (langHint (lang t)) (Object_entries (updates pl))
             ([], Map.empty) = Inr (bad, val)"
    and a: "\<And>c. answersOf (fst (handleTurn w S t)) c =
               (if c = convId t then Object_assign (answersOf S c) val else answersOf S c)"
    by blast
  have "val k = Map.empty k"
  proof (rule validateAll_frame[OF v])
    fix raw x
    assume "(k, raw) \<in> set (Object_entries (updates pl))"
    then show "validateUpdate (toLowerCase w) k raw (langHint (lang t)) \<noteq> Inr (Accept x)"
      using assms[of x] p unfolding acceptedThisTurn_def by auto
  qed
  then have "val k = None" by simp
  then show ?thesis using a[of c] by (simp add: Object_assign_def map_add_def)
qed


lemma field_valueOrEmpty: "field a k = valueOrEmpty a k"
  by (simp add: field_def valueOrEmpty_def or_else_Nil)

lemma lead_request:
  "snd (updateLeadFixedRow w cid a) =
     (if sheets w then [UpdateRow LeadsTab (fullLeadRow (now w LeadUpdate) cid a)] else [])"
  by (simp add: updateLeadFixedRow_def sheetsCall_def composeLeadRow_def LEADS_HEADER_COUNT_def
        fullLeadRow_def leadColumns_def field_valueOrEmpty or_else_Nil)

lemma persistTurn_updates:
  "UpdateRow tb row \<in> set (persistTurn w cid um reply phone pg ua lng a) \<longleftrightarrow>
     sheets w \<and> \<not> fails w UserLogAppend \<and> \<not> fails w AssistantLogAppend
     \<and> tb = LeadsTab \<and> row = fullLeadRow (now w LeadUpdate) cid a"
  by (auto simp: persistTurn_def appendChatLog_def sheetsCall_def lead_request Let_def)

lemma turnRequests_updates:
  "UpdateRow tb row \<in> set (turnRequests w t a reply) \<longleftrightarrow>
     sheets w \<and> \<not> fails w UserLogAppend \<and> \<not> fails w AssistantLogAppend
     \<and> tb = LeadsTab \<and> row = fullLeadRow (now w LeadUpdate) (convId t) a"
  by (auto simp: turnRequests_def Let_def persistTurn_updates appendPresales_def sheetsCall_def)


lemma default_turn:
  assumes "llmPlan (completion w) = Inr defaultPlan"
  shows "handleTurn w S t =
     ((fst (ensureSession S (convId t)))(convId t \<mapsto> answersOf S (convId t)),
      Inr \<lparr> delivered = (if resStream t then Streamed [DataEvent (js ''Okay.'') (convId t)]
                          else Returned (js ''Okay.'') (convId t) (answersOf S (convId t))),
            requests = turnRequests w t (answersOf S (convId t)) (js ''Okay.'') \<rparr>)"
proof -
  have v: "validateAll (toLowerCase w) (langHint (lang t)) (Object_entries (updates defaultPlan))
       ([], Map.empty) = Inr ([], Map.empty)"
    by (simp add: defaultPlan_def Object_entries_def)
  have r: "turnReply [] defaultPlan = js ''Okay.''"
    by (simp add: turnReply_def or_else_def defaultPlan_def js_def)
  show ?thesis
    unfolding handleTurn_ok[OF assms v] r by (simp add: Object_assign_def)
qed

lemma llmPlan_not_object:
  "c = Unparseable \<or> (\<exists>j. c = Parsed j \<and> notAnObject j) \<Longrightarrow> llmPlan c = Inr defaultPlan"
proof (erule disjE)
  assume "c = Unparseable"
  then show ?thesis by (simp add: llmPlan_def normalizePlan_def defaultPlan_def)
next
  assume "\<exists>j. c = Parsed j \<and> notAnObject j"
  then obtain j where "c = Parsed j" "notAnObject j" by blast
  then show ?thesis
    by (cases j) (simp_all add: llmPlan_def normalizePlan_def defaultPlan_def notAnObject_def)
qed

section \<open>The reply of a turn\<close>

text \<open>
  C1. For every turn that hands back a reply: when the validator rejects at least one
  proposed update, the reply is the corrective prompt of the last rejection met while
  iterating the updates of the plan, whatever the planner's \<open>assistant_text\<close> is; when
  it rejects none, the reply is the planner's \<open>assistant_text\<close>, or \<open>Okay.\<close> when that
  is empty. Exactly one reply is handed back.
\<close>

theorem reply_composition:
  assumes "snd (handleTurn w S t) = Inr out"
  shows "\<exists>pl. llmPlan (completion w) = Inr pl \<and>
           repliesOf (delivered out) =
             [let ps = rejections (toLowerCase w) (langHint (lang t)) (Object_entries (updates pl))
              in if ps \<noteq> [] then last ps
                 else if assistant_text pl \<noteq> [] then assistant_text pl
                 else js ''Okay.'']"
proof -
  obtain pl bad val where p: "llmPlan (completion w) = Inr pl"
    and v: "validateAll (toLowerCase w) (langHint (lang t)) (Object_entries (updates pl)) ([], Map.empty)
       = Inr (bad, val)"
    using assms by (rule handleTurn_success)
  have "repliesOf (delivered out) = [turnReply bad pl]"
    using assms handleTurn_ok[OF p v, of S] by (auto simp: repliesOf_def)
  then show ?thesis using p turnReply_last[OF v, of pl] by (simp add: Let_def)
qed

section \<open>What enters a session\<close>

text \<open>
  C2. For every turn and every key: after the turn the answers of a conversation hold a
  value for the key only if \<open>validateUpdate\<close> accepted that value for that key, in this
  turn or before it; a key for which this turn accepts no update keeps the value it had
  (or stays absent), in particular a key whose updates are all rejected. The hypothesis
  holds in every state that the server reaches (\<open>reachable_validated\<close>).
\<close>

lemma turn_keeps_validated:
  assumes "sessionsValidated (toLowerCase w) S"
  shows "sessionsValidated (toLowerCase w) (fst (handleTurn w S t))"
  unfolding sessionsValidated_def
proof (intro allI impI)
  fix c k v
  assume "answersOf (fst (handleTurn w S t)) c k = Some v"
  from turn_source[OF this] show "\<exists>raw l. validateUpdate (toLowerCase w) k raw l = Inr (Accept v)"
  proof
    assume "answersOf S c k = Some v"
    with assms show ?thesis unfolding sessionsValidated_def by blast
  next
    assume "c = convId t \<and> acceptedThisTurn w t k v"
    then show ?thesis unfolding acceptedThisTurn_def by blast
  qed
qed

lemma reachable_validated: "reachable lc S \<Longrightarrow> sessionsValidated lc S"
proof (induction rule: reachable.induct)
  case start
  then show ?case by (simp add: sessionsValidated_def answersOf_def)
next
  case (turn S w t)
  then show ?case using turn_keeps_validated[of w S t] by simp
qed

theorem session_holds_validated_values:
  assumes "sessionsValidated (toLowerCase w) S"
  shows "sessionsValidated (toLowerCase w) (fst (handleTurn w S t))
     \<and> (\<forall>c k v. answersOf (fst (handleTurn w S t)) c k = Some v \<longrightarrow>
           answersOf S c k = Some v \<or> (c = convId t \<and> acceptedThisTurn w t k v))
     \<and> (\<forall>c k. (\<forall>v. \<not> acceptedThisTurn w t k v) \<longrightarrow>
           answersOf (fst (handleTurn w S t)) c k = answersOf S c k)"
proof (intro conjI allI impI)
  show "sessionsValidated (toLowerCase w) (fst (handleTurn w S t))"
    using assms by (rule turn_keeps_validated)
next
  fix c k v
  assume "answersOf (fst (handleTurn w S t)) c k = Some v"
  then show "answersOf S c k = Some v \<or> (c = convId t \<and> acceptedThisTurn w t k v)"
    by (rule turn_source)
next
  fix c k
  assume "\<forall>v. \<not> acceptedThisTurn w t k v"
  then show "answersOf (fst (handleTurn w S t)) c k = answersOf S c k"
    using turn_frame by blast
qed

section \<open>Failures of the planner\<close>

text \<open>
  C3, as the code has it. When the body of the planner's response is not JSON, or is a
  JSON boolean, number, string or array, \<open>llmPlan\<close> substitutes the empty updates,
  \<open>Okay.\<close>, the empty next field and \<open>done = false\<close>, and the turn answers \<open>Okay.\<close> with
  the answers of the session unchanged. When the body is a JSON object, each of the four
  properties that is missing or of another type gets its default on its own, and the
  others are kept. When the call to the planner fails, the handler does not recover: the
  failure leaves \<open>handleTurn\<close>, and the route answers with status 500 and
  \<open>chat_failed\<close>.
\<close>

theorem planner_failure_handling:
  "(completion w = Unparseable \<or> (\<exists>j. completion w = Parsed j \<and> notAnObject j) \<longrightarrow>
      llmPlan (completion w) = Inr defaultPlan
      \<and> snd (chat w S b) = Json200 (js ''Okay.'') (convId (turnOf w b False))
                              (answersOf S (convId (turnOf w b False))))
   \<and> (completion w = Parsed (JObj kvs) \<longrightarrow>
      llmPlan (completion w) =
        Inr \<lparr> updates = (case map_of kvs (js ''updates'') of
                             Some (JObj u) \<Rightarrow> JObj u | Some (JArr u) \<Rightarrow> JArr u | _ \<Rightarrow> JObj []),
              assistant_text = (case map_of kvs (js ''assistant_text'') of
                             Some (JStr x) \<Rightarrow> x | _ \<Rightarrow> js ''Okay.''),
              next_field = (case map_of kvs (js ''next_field'') of
                             Some (JStr x) \<Rightarrow> x | _ \<Rightarrow> []),
              done_flag = (case map_of kvs (js ''done'') of
                             Some (JBool d) \<Rightarrow> d | _ \<Rightarrow> False) \<rparr>)
   \<and> (completion w = CallFails \<longrightarrow>
      snd (handleTurn w S t) = Inl ApiError
      \<and> snd (chat w S b) = Json500 (js ''chat_failed''))"
proof (intro conjI impI)
  assume a: "completion w = Unparseable \<or> (\<exists>j. completion w = Parsed j \<and> notAnObject j)"
  then show d: "llmPlan (completion w) = Inr defaultPlan" by (rule llmPlan_not_object)
  show "snd (chat w S b) = Json200 (js ''Okay.'') (convId (turnOf w b False))
                              (answersOf S (convId (turnOf w b False)))"
    by (simp add: chat_def default_turn[OF d] turnOf_def)
next
  assume "completion w = Parsed (JObj kvs)"
  then show "llmPlan (completion w) =
        Inr \<lparr> updates = (case map_of kvs (js ''updates'') of
                             Some (JObj u) \<Rightarrow> JObj u | Some (JArr u) \<Rightarrow> JArr u | _ \<Rightarrow> JObj []),
              assistant_text = (case map_of kvs (js ''assistant_text'') of
                             Some (JStr x) \<Rightarrow> x | _ \<Rightarrow> js ''Okay.''),
              next_field = (case map_of kvs (js ''next_field'') of
                             Some (JStr x) \<Rightarrow> x | _ \<Rightarrow> []),
              done_flag = (case map_of kvs (js ''done'') of
                             Some (JBool d) \<Rightarrow> d | _ \<Rightarrow> False) \<rparr>"
    by (simp add: llmPlan_def normalizePlan_def)
next
  assume a: "completion w = CallFails"
  then have p: "llmPlan (completion w) = Inl ApiError" by (simp add: llmPlan_def)
  show "snd (handleTurn w S t) = Inl ApiError" by (simp add: handleTurn_plan_error[OF p])
  show "snd (chat w S b) = Json500 (js ''chat_failed'')"
    by (simp add: chat_def handleTurn_plan_error[OF p])
qed

section \<open>The two delivery paths\<close>

text \<open>
  C7. For every request body, every state of the sessions and every outcome of the
  planner and of the sink, the streaming route emits one event that carries the reply
  and the conversation of the response of the synchronous route, and both routes leave
  the same sessions; when the synchronous route fails with status 500, the streaming
  route emits the error comment.
\<close>

theorem streaming_matches_synchronous:
  "fst (chat_stream w S b) = fst (chat w S b)
   \<and> (case snd (chat w S b) of
        Json200 reply cid a \<Rightarrow> snd (chat_stream w S b) = EventStream [DataEvent reply cid]
      | Json500 e \<Rightarrow> snd (chat_stream w S b) = EventStream [CommentEvent (js ''error'')]
      | EventStream evs \<Rightarrow> False)"
proof -
  have l: "lang (turnOf w b s) = b_lang b" for s by (simp add: turnOf_def)
  have c: "convId (turnOf w b True) = convId (turnOf w b False)" by (simp add: turnOf_def)
  have rs: "resStream (turnOf w b s) = s" for s by (simp add: turnOf_def)
  show ?thesis
  proof (cases "llmPlan (completion w)")
    case (Inl e)
    then show ?thesis
      by (simp add: chat_def chat_stream_def handleTurn_plan_error c)
  next
    case (Inr pl)
    show ?thesis
    proof (cases "validateAll (toLowerCase w) (langHint (b_lang b)) (Object_entries (updates pl)) ([], Map.empty)")
      case (Inl e)
      have "handleTurn w S (turnOf w b s) = (fst (ensureSession S (convId (turnOf w b s))), Inl e)" for s
        using handleTurn_validate_error[OF Inr, of "turnOf w b s" e S] Inl by (simp add: l)
      then show ?thesis
        by (simp add: chat_def chat_stream_def c)
    next
      case r: (Inr r)
      obtain bad val where "r = (bad, val)" by (cases r)
      with r have v: "validateAll (toLowerCase w) (langHint (lang (turnOf w b s)))
          (Object_entries (updates pl)) ([], Map.empty) = Inr (bad, val)" for s by (simp add: l)
      show ?thesis
        by (simp add: chat_def chat_stream_def handleTurn_ok[OF Inr v] c rs)
    qed
  qed
qed

section \<open>The fixed lead row\<close>

text \<open>
  C8. For every turn that hands back a reply, every update of the lead row that the
  turn sends carries the twelve columns of the answers of the session as they are after
  the merge of the turn (the time, the conversation and the ten fields, an absent field
  as the empty string), whichever fields the turn changed; and the turn sends this update
  whenever the Sheets client is present and the two appends to the chat log before it
  succeed.
\<close>

theorem lead_row_reflects_answers:
  assumes "snd (handleTurn w S t) = Inr out"
  shows "(\<forall>tb row. UpdateRow tb row \<in> set (requests out) \<longrightarrow>
            tb = LeadsTab \<and>
            row = fullLeadRow (now w LeadUpdate) (convId t)
                    (answersOf (fst (handleTurn w S t)) (convId t)))
     \<and> (sheets w \<and> \<not> fails w UserLogAppend \<and> \<not> fails w AssistantLogAppend \<longrightarrow>
          UpdateRow LeadsTab (fullLeadRow (now w LeadUpdate) (convId t)
                    (answersOf (fst (handleTurn w S t)) (convId t))) \<in> set (requests out))
     \<and> length (fullLeadRow (now w LeadUpdate) (convId t)
                    (answersOf (fst (handleTurn w S t)) (convId t))) = 12"
proof -
  obtain pl bad val where p: "llmPlan (completion w) = Inr pl"
    and v: "validateAll (toLowerCase w) (langHint (lang t)) (Object_entries (updates pl)) ([], Map.empty)
       = Inr (bad, val)"
    using assms by (rule handleTurn_success)
  let ?a = "Object_assign (answersOf S (convId t)) val"
  have a: "answersOf (fst (handleTurn w S t)) (convId t) = ?a"
    by (simp add: handleTurn_ok[OF p v] answersOf_upd)
  have r: "requests out = turnRequests w t ?a (turnReply bad pl)"
    using assms handleTurn_ok[OF p v, of S] by auto
  show ?thesis
    unfolding a r turnRequests_updates by (simp add: fullLeadRow_def leadColumns_def)
qed

section \<open>Merging twice\<close>

text \<open>
  C9. Merging the same accepted updates into the answers of a session twice gives the
  same answers as merging them once; so does handling the same turn, with the same
  plan, a second time.
\<close>

theorem merge_is_idempotent:
  "Object_assign (Object_assign a v) v = Object_assign a v
   \<and> fst (handleTurn w (fst (handleTurn w S t)) t) = fst (handleTurn w S t)"
proof
  show "Object_assign (Object_assign a v) v = Object_assign a v"
    by (rule ext) (simp add: Object_assign_def map_add_def split: option.splits)
next
  have e: "fst (ensureSession (fst (ensureSession S c)) c) = fst (ensureSession S c)" for c
    by (simp add: ensureSession_def split: option.splits)
  show "fst (handleTurn w (fst (handleTurn w S t)) t) = fst (handleTurn w S t)"
  proof (cases "llmPlan (completion w)")
    case (Inl e')
    then show ?thesis by (simp add: handleTurn_plan_error e)
  next
    case (Inr pl)
    show ?thesis
    proof (cases "validateAll (toLowerCase w) (langHint (lang t)) (Object_entries (updates pl)) ([], Map.empty)")
      case (Inl e')
      with Inr show ?thesis by (simp add: handleTurn_validate_error e)
    next
      case r: (Inr r)
      obtain bad val where "r = (bad, val)" by (cases r)
      with r have v: "validateAll (toLowerCase w) (langHint (lang t)) (Object_entries (updates pl))
        ([], Map.empty) = Inr (bad, val)" by simp
      have i: "Object_assign (Object_assign x val) val = Object_assign x val" for x
        by (rule ext) (simp add: Object_assign_def map_add_def split: option.splits)
      show ?thesis
        by (simp add: handleTurn_ok[OF Inr v] answersOf_upd i ensureSession_def)
    qed
  qed
qed

section \<open>The examples of the specification, end to end\<close>

lemma phone_plan:
  "llmPlan (completion (exampleWorld sh phonePlan)) =
     Inr \<lparr> updates = JObj [(js ''phone'', JStr (js ''+91 98765 43210''))],
           assistant_text = phoneReply,
           next_field = js ''student_name'', done_flag = False \<rparr>"
  by (simp add: exampleWorld_def phonePlan_def llmPlan_def normalizePlan_def phoneReply_def js_def)

lemma phone_value:
  "validateUpdate asciiLowerCase (js ''phone'') (JStr (js ''+91 98765 43210'')) En
     = Inr (Accept (js ''9876543210''))"
  by (simp add: validateUpdate_def onlyDigits_filter js_def digit_def)

lemma phone_validateAll:
  "validateAll asciiLowerCase En [(js ''phone'', JStr (js ''+91 98765 43210''))] ([], Map.empty)
     = Inr ([], phoneAnswers)"
proof -
  have "setProperty Map.empty (js ''phone'') (js ''9876543210'') = phoneAnswers"
    by (simp add: setProperty_def phoneAnswers_def js_def)
  then show ?thesis by (simp add: phone_value)
qed

lemma phone_turn:
  "handleTurn (exampleWorld True phonePlan) Map.empty (exampleTurn phoneSaid False) =
     ([js ''c1'' \<mapsto> phoneAnswers], Inr phoneOutcome)"
proof -
  have l: "langHint (lang (exampleTurn phoneSaid False)) = En"
    by (simp add: exampleTurn_def langHint_def js_def)
  have v: "validateAll (toLowerCase (exampleWorld True phonePlan))
             (langHint (lang (exampleTurn phoneSaid False)))
             (Object_entries (updates \<lparr> updates = JObj [(js ''phone'', JStr (js ''+91 98765 43210''))],
                assistant_text = phoneReply,
                next_field = js ''student_name'', done_flag = False \<rparr>)) ([], Map.empty)
           = Inr ([], phoneAnswers)"
    unfolding l using phone_validateAll by (simp add: exampleWorld_def Object_entries_def)
  have r: "turnReply [] \<lparr> updates = u, assistant_text = phoneReply, next_field = n, done_flag = d \<rparr>
             = phoneReply" for u n d
    by (simp add: turnReply_def or_else_def phoneReply_def js_def)
  have a: "Object_assign (answersOf Map.empty c) phoneAnswers = phoneAnswers" for c
    by (simp add: Object_assign_def answersOf_def)
  have f: "field phoneAnswers (js ''phone'') = js ''9876543210''"
    "field phoneAnswers (js ''parent_name'') = []" "field phoneAnswers (js ''student_name'') = []"
    "field phoneAnswers (js ''grade'') = []" "field phoneAnswers (js ''subjects'') = []"
    "field phoneAnswers (js ''mode'') = []" "field phoneAnswers (js ''area'') = []"
    "field phoneAnswers (js ''schedule'') = []" "field phoneAnswers (js ''budget'') = []"
    "field phoneAnswers (js ''demo_consent'') = []"
    by (simp_all add: field_def or_else_def phoneAnswers_def js_def)
  have d: "onlyDigits (js ''9876543210'') = js ''9876543210''"
    by (simp add: onlyDigits_filter js_def digit_def)
  have n: "length (js ''9876543210'') = 10" "js ''9876543210'' \<noteq> []"
    by (simp_all add: js_def)
  have u: "find (\<lambda>m. role m = js ''user'') (rev (messages (exampleTurn phoneSaid False)))
            = Some \<lparr> role = js ''user'', content = phoneSaid \<rparr>"
    by (simp add: exampleTurn_def)
  have s: "phoneSaid \<noteq> []" "phoneReply \<noteq> []" "js ''c1'' \<noteq> []" "js ''user'' \<noteq> []"
    "js ''assistant'' \<noteq> []"
    by (simp_all add: phoneSaid_def phoneReply_def js_def)
  have t: "convId (exampleTurn phoneSaid False) = js ''c1''" "page (exampleTurn phoneSaid False) = js ''/''"
    "userAgent (exampleTurn phoneSaid False) = js ''widget''"
    "langTag (langHint (lang (exampleTurn phoneSaid False))) = js ''en''"
    using l by (simp_all add: exampleTurn_def langTag_def)
  have q: "turnRequests (exampleWorld True phonePlan) (exampleTurn phoneSaid False) phoneAnswers
             phoneReply = requests phoneOutcome"
    by (simp add: turnRequests_def Let_def f d n u s t persistTurn_def appendChatLog_def
          appendPresales_def updateLeadFixedRow_def sheetsCall_def composeLeadRow_def
          LEADS_HEADER_COUNT_def exampleWorld_def phoneOutcome_def phoneLeadRow_def
          exampleTime_def or_else_def)
  show ?thesis
    unfolding handleTurn_ok[OF phone_plan v] r a q
    by (simp add: phoneOutcome_def ensureSession_def exampleTurn_def)
qed

lemma empty_validated: "sessionsValidated lc Map.empty"
  by (simp add: sessionsValidated_def answersOf_def)

text \<open>
  The area example and the phone example: the rejected area gives the area prompt as
  the reply; the accepted phone gives the planner's text.
\<close>

theorem reply_composition_witness:
  "snd (handleTurn (exampleWorld False areaPlan) Map.empty (exampleTurn (js ''NEET'') False))
     = Inr (areaOutcome False)
   \<and> rejections asciiLowerCase En [(js ''area'', JStr (js ''NEET''))] = [t_area En]
   \<and> repliesOf (delivered (areaOutcome False)) = [t_area En]
   \<and> snd (handleTurn (exampleWorld True phonePlan) Map.empty (exampleTurn phoneSaid False))
     = Inr phoneOutcome
   \<and> rejections asciiLowerCase En [(js ''phone'', JStr (js ''+91 98765 43210''))] = []
   \<and> repliesOf (delivered phoneOutcome) = [phoneReply]"
proof -
  have h: "snd (handleTurn (exampleWorld False areaPlan) Map.empty (exampleTurn (js ''NEET'') False))
     = Inr (areaOutcome False)"
    by (simp add: area_turn)
  have r: "rejections asciiLowerCase En [(js ''area'', JStr (js ''NEET''))] = [t_area En]"
    by (simp add: area_NEET)
  have h': "snd (handleTurn (exampleWorld True phonePlan) Map.empty (exampleTurn phoneSaid False))
     = Inr phoneOutcome"
    by (simp add: phone_turn)
  have r': "rejections asciiLowerCase En [(js ''phone'', JStr (js ''+91 98765 43210''))] = []"
    by (simp add: phone_value)
  show ?thesis
    using h r h' r' reply_composition [OF h] reply_composition [OF h']
    by (simp add: areaOutcome_def phoneOutcome_def repliesOf_def)
qed

text \<open>
  From the empty state, the area example leaves the session without an area and the
  phone example stores the ten digits; both states hold validated values only.
\<close>

theorem session_holds_validated_values_witness:
  "sessionsValidated asciiLowerCase Map.empty
   \<and> sessionsValidated asciiLowerCase
        (fst (handleTurn (exampleWorld False areaPlan) Map.empty (exampleTurn (js ''NEET'') False)))
   \<and> answersOf (fst (handleTurn (exampleWorld False areaPlan) Map.empty
                        (exampleTurn (js ''NEET'') False))) (js ''c1'') (js ''area'') = None
   \<and> sessionsValidated asciiLowerCase
        (fst (handleTurn (exampleWorld True phonePlan) Map.empty (exampleTurn phoneSaid False)))
   \<and> answersOf (fst (handleTurn (exampleWorld True phonePlan) Map.empty
                        (exampleTurn phoneSaid False))) (js ''c1'') (js ''phone'')
        = Some (js ''9876543210'')"
proof -
  have h: "sessionsValidated (toLowerCase (exampleWorld sh c)) Map.empty" for sh c
    by (rule empty_validated)
  have l: "toLowerCase (exampleWorld sh c) = asciiLowerCase" for sh c
    by (simp add: exampleWorld_def)
  have 1: "sessionsValidated asciiLowerCase
        (fst (handleTurn (exampleWorld False areaPlan) Map.empty (exampleTurn (js ''NEET'') False)))"
    using session_holds_validated_values [OF h, of False areaPlan "exampleTurn (js ''NEET'') False"]
    unfolding l by blast
  have 2: "sessionsValidated asciiLowerCase
        (fst (handleTurn (exampleWorld True phonePlan) Map.empty (exampleTurn phoneSaid False)))"
    using session_holds_validated_values [OF h, of True phonePlan "exampleTurn phoneSaid False"]
    unfolding l by blast
  show ?thesis
    using 1 2 empty_validated[of asciiLowerCase]
    by (simp add: area_turn phone_turn answersOf_def phoneAnswers_def)
qed

text \<open>
  A body that is not JSON and a body that is a JSON string both give \<open>Okay.\<close>; a call
  that fails leaves the handler with the failure.
\<close>

theorem planner_failure_handling_witness:
  "completion (exampleWorld False Unparseable) = Unparseable
   \<and> snd (chat (exampleWorld False Unparseable) Map.empty (exampleBody (js ''hello'')))
       = Json200 (js ''Okay.'') (js ''c1'') Map.empty
   \<and> notAnObject (JStr (js ''nope''))
   \<and> snd (chat (exampleWorld False (Parsed (JStr (js ''nope'')))) Map.empty (exampleBody (js ''hello'')))
       = Json200 (js ''Okay.'') (js ''c1'') Map.empty
   \<and> completion (exampleWorld False (Parsed (JObj
          [(js ''updates'', JNum (js ''5'')), (js ''assistant_text'', JStr (js ''Hi''))])))
       = Parsed (JObj [(js ''updates'', JNum (js ''5'')), (js ''assistant_text'', JStr (js ''Hi''))])
   \<and> llmPlan (Parsed (JObj
          [(js ''updates'', JNum (js ''5'')), (js ''assistant_text'', JStr (js ''Hi''))]))
       = Inr \<lparr> updates = JObj [], assistant_text = js ''Hi'', next_field = [], done_flag = False \<rparr>
   \<and> completion (exampleWorld False CallFails) = CallFails
   \<and> snd (handleTurn (exampleWorld False CallFails) Map.empty (exampleTurn (js ''hello'') False))
       = Inl ApiError"
proof -
  have c: "completion (exampleWorld False x) = x" for x by (simp add: exampleWorld_def)
  have k: "map_of [(js ''updates'', JNum (js ''5'')), (js ''assistant_text'', JStr (js ''Hi''))]
             (js ''updates'') = Some (JNum (js ''5''))"
    "map_of [(js ''updates'', JNum (js ''5'')), (js ''assistant_text'', JStr (js ''Hi''))]
             (js ''assistant_text'') = Some (JStr (js ''Hi''))"
    "map_of [(js ''updates'', JNum (js ''5'')), (js ''assistant_text'', JStr (js ''Hi''))]
             (js ''next_field'') = None"
    "map_of [(js ''updates'', JNum (js ''5'')), (js ''assistant_text'', JStr (js ''Hi''))]
             (js ''done'') = None"
    by (simp_all add: js_def)
  have t: "convId (turnOf w (exampleBody (js ''hello'')) False) = js ''c1''" for w
    by (simp add: turnOf_def exampleBody_def js_def)
  have n: "notAnObject (JStr (js ''nope''))" by (simp add: notAnObject_def)
  have o: "llmPlan (Parsed (JObj
          [(js ''updates'', JNum (js ''5'')), (js ''assistant_text'', JStr (js ''Hi''))]))
       = Inr \<lparr> updates = JObj [], assistant_text = js ''Hi'', next_field = [], done_flag = False \<rparr>"
    using planner_failure_handling [of "exampleWorld False (Parsed (JObj
          [(js ''updates'', JNum (js ''5'')), (js ''assistant_text'', JStr (js ''Hi''))]))" Map.empty
        "exampleBody (js ''hello'')"
        "[(js ''updates'', JNum (js ''5'')), (js ''assistant_text'', JStr (js ''Hi''))]"
        "exampleTurn (js ''hello'') False"]
    unfolding c k by simp
  show ?thesis
    using n
      planner_failure_handling [of "exampleWorld False Unparseable" Map.empty
        "exampleBody (js ''hello'')" "[]" "exampleTurn (js ''hello'') False"]
      planner_failure_handling [of "exampleWorld False (Parsed (JStr (js ''nope'')))" Map.empty
        "exampleBody (js ''hello'')" "[]" "exampleTurn (js ''hello'') False"]
      planner_failure_handling [of "exampleWorld False CallFails" Map.empty
        "exampleBody (js ''hello'')" "[]" "exampleTurn (js ''hello'') False"]
    by (simp add: c t o answersOf_def)
qed

text \<open>
  C3 as it is stated has a turn whose planner call fails answer \<open>Okay.\<close>. The route
  answers with status 500 and \<open>chat_failed\<close> instead.
\<close>

theorem planner_throw_counterexample:
  "completion (exampleWorld False CallFails) = CallFails
   \<and> snd (chat (exampleWorld False CallFails) Map.empty (exampleBody (js ''hello'')))
       = Json500 (js ''chat_failed'')"
  by (simp add: chat_def handleTurn_plan_error llmPlan_def exampleWorld_def)

text \<open>The body \<open>null\<close> passes the shape check of \<open>llmPlan\<close> and ends the same way.\<close>

lemma planner_null_body:
  "snd (chat (exampleWorld False (Parsed JNull)) Map.empty (exampleBody (js ''hello'')))
     = Json500 (js ''chat_failed'')"
  by (simp add: chat_def handleTurn_plan_error llmPlan_def exampleWorld_def)

text \<open>The area example on both routes.\<close>

theorem streaming_matches_synchronous_witness:
  "snd (chat (exampleWorld False areaPlan) Map.empty (exampleBody (js ''NEET'')))
      = Json200 (t_area En) (js ''c1'') Map.empty
   \<and> snd (chat_stream (exampleWorld False areaPlan) Map.empty (exampleBody (js ''NEET'')))
      = EventStream [DataEvent (t_area En) (js ''c1'')]"
proof -
  have t: "turnOf w (exampleBody said) s = exampleTurn said s" for w said s
    by (simp add: turnOf_def exampleBody_def exampleTurn_def js_def)
  have 1: "snd (chat (exampleWorld False areaPlan) Map.empty (exampleBody (js ''NEET'')))
      = Json200 (t_area En) (js ''c1'') Map.empty"
    by (simp add: chat_def t area_turn areaOutcome_def)
  show ?thesis
    using 1 streaming_matches_synchronous [of "exampleWorld False areaPlan" Map.empty
      "exampleBody (js ''NEET'')"]
    by simp
qed

text \<open>The phone example sends the lead row with the ten digits in the phone column.\<close>

theorem lead_row_reflects_answers_witness:
  "snd (handleTurn (exampleWorld True phonePlan) Map.empty (exampleTurn phoneSaid False))
      = Inr phoneOutcome
   \<and> answersOf (fst (handleTurn (exampleWorld True phonePlan) Map.empty
                        (exampleTurn phoneSaid False))) (js ''c1'') = phoneAnswers
   \<and> fullLeadRow exampleTime (js ''c1'') phoneAnswers = phoneLeadRow
   \<and> UpdateRow LeadsTab phoneLeadRow \<in> set (requests phoneOutcome)"
proof -
  have h: "snd (handleTurn (exampleWorld True phonePlan) Map.empty (exampleTurn phoneSaid False))
      = Inr phoneOutcome"
    by (simp add: phone_turn)
  have a: "answersOf (fst (handleTurn (exampleWorld True phonePlan) Map.empty
                        (exampleTurn phoneSaid False))) (js ''c1'') = phoneAnswers"
    by (simp add: phone_turn answersOf_def)
  have r: "fullLeadRow exampleTime (js ''c1'') phoneAnswers = phoneLeadRow"
    by (simp add: fullLeadRow_def leadColumns_def valueOrEmpty_def phoneAnswers_def
          phoneLeadRow_def js_def)
  have w: "sheets (exampleWorld True phonePlan)"
    "\<not> fails (exampleWorld True phonePlan) UserLogAppend"
    "\<not> fails (exampleWorld True phonePlan) AssistantLogAppend"
    "now (exampleWorld True phonePlan) LeadUpdate = exampleTime"
    "convId (exampleTurn phoneSaid False) = js ''c1''"
    by (simp_all add: exampleWorld_def exampleTurn_def exampleTime_def)
  show ?thesis
    using h a r lead_row_reflects_answers [OF h]
    by (simp add: w)
qed

text \<open>The phone example handled twice leaves the state of handling it once.\<close>

theorem merge_is_idempotent_witness:
  "Object_assign (Object_assign Map.empty phoneAnswers) phoneAnswers = phoneAnswers
   \<and> fst (handleTurn (exampleWorld True phonePlan)
            (fst (handleTurn (exampleWorld True phonePlan) Map.empty (exampleTurn phoneSaid False)))
            (exampleTurn phoneSaid False))
       = [js ''c1'' \<mapsto> phoneAnswers]"
  using merge_is_idempotent [of Map.empty phoneAnswers "exampleWorld True phonePlan" Map.empty
          "exampleTurn phoneSaid False"]
  by (simp add: phone_turn Object_assign_def)

end
